theory Spec2Isabelle
  imports Main "HOL-Library.Word"
begin

section \<open>Data model of lib/GraphicsMagick.js\<close>

text \<open>
  JavaScript \<open>Error\<close> objects are modelled by their message. The only error the module
  constructs itself in \<open>process\<close> is \<open>new Error('File was not an image')\<close>; every other
  error comes from a collaborator and is passed through unchanged.
\<close>

datatype error = Error string

definition not_an_image :: error where
  "not_an_image = Error ''File was not an image''"

text \<open>
  A TransformSpec is a JavaScript object whose values are scalars or arrays. It is kept as
  the list of its own properties in \<open>Object.keys\<close> order (the keys of an object are
  pairwise distinct).
\<close>

datatype argval = Scalar string | Array "string list"

type_synonym transform = "(string \<times> argval) list"

text \<open>The attachment handed to \<open>process\<close>: \<open>attachment.path\<close> and \<open>attachment.name\<close>.\<close>

record attachment =
  att_path :: string
  att_name :: string

text \<open>What \<open>gm(...).identify\<close> yields: \<open>format\<close>, \<open>depth\<close> and \<open>size.width\<close>, \<open>size.height\<close>.\<close>

record attributes =
  attr_format :: string
  attr_depth :: nat
  attr_width :: nat
  attr_height :: nat

text \<open>What \<open>fs.stat\<close> yields; only \<open>stats.size\<close> is read.\<close>

record stats =
  stat_size :: nat

text \<open>The descriptor \<open>{path, size, type}\<close> handed to \<open>storageProvider.save\<close>.\<close>

record blob =
  blob_path :: string
  blob_size :: nat
  blob_type :: string

text \<open>
  One sub-record \<open>model[name]\<close> of the host model. Each of the eight fields the module
  writes may be \<open>undefined\<close> (\<open>None\<close>) before it is written. The schema that
  \<open>createFieldSchema\<close> contributes gives the model a sub-record for every transform name,
  so a model is a function of names.
\<close>

record subrecord =
  format :: "string option"
  depth :: "nat option"
  width :: "nat option"
  height :: "nat option"
  size_f :: "nat option"
  url :: "string option"
  name :: "string option"
  type_f :: "string option"

type_synonym model = "string \<Rightarrow> subrecord"

text \<open>JavaScript truthiness of a value that is a string or \<open>undefined\<close>.\<close>

definition truthy :: "string option \<Rightarrow> bool" where
  "truthy v = (case v of None \<Rightarrow> False | Some s \<Rightarrow> s \<noteq> [])"

text \<open>
  The state of \<open>this._options\<close> once the constructor has run: \<open>transforms\<close> is an object,
  \<open>tmpDir\<close> and \<open>formats\<close> are set, \<open>imageMagick\<close> may be \<open>undefined\<close>.
\<close>

record config =
  transforms :: "(string \<times> transform) list"
  tmpDir :: string
  formats :: "string list"
  imageMagick :: "bool option"

section \<open>randomString\<close>

type_synonym byte = "8 word"

text \<open>
  The source of \<open>crypto.randomBytes\<close>: the bytes it will hand out, in order.
  \<open>randomBytes n\<close> takes the next \<open>n\<close> of them.
\<close>

type_synonym rng = "nat \<Rightarrow> byte"

definition randomBytes :: "nat \<Rightarrow> rng \<Rightarrow> byte list \<times> rng" where
  "randomBytes n g = (map g [0..<n], \<lambda>i. g (i + n))"

definition hexdigits :: string where
  "hexdigits = ''0123456789abcdef''"

definition hex_of_byte :: "byte \<Rightarrow> string" where
  "hex_of_byte b = [hexdigits ! (unat b div 16), hexdigits ! (unat b mod 16)]"

definition toString_hex :: "byte list \<Rightarrow> string" where
  "toString_hex bs = concat (map hex_of_byte bs)"

text \<open>
  \<open>crypto.randomBytes(Math.ceil(length / 2)).toString('hex').slice(0, length)\<close>
\<close>

definition randomString :: "nat \<Rightarrow> rng \<Rightarrow> string \<times> rng" where
  "randomString len g =
     (case randomBytes ((len + 1) div 2) g of
        (bs, g') \<Rightarrow> (take len (toString_hex bs), g'))"

section \<open>_setUpConvertArgs\<close>

text \<open>
  The method walks \<open>Object.keys(transform)\<close> with \<open>forEach\<close> and pushes onto \<open>args\<close>;
  the inner \<open>forEach\<close> pushes the elements of an array value one by one.
\<close>

definition push_all :: "string list \<Rightarrow> string list \<Rightarrow> string list" where
  "push_all xs args = fold (\<lambda>a acc. acc @ [a]) xs args"

definition setUpConvertArgs_step :: "string \<times> argval \<Rightarrow> string list \<Rightarrow> string list" where
  "setUpConvertArgs_step kv args =
     (case kv of (arg, v) \<Rightarrow>
        if arg = ''format'' then args
        else (let args1 = args @ [''-'' @ arg] in
              case v of
                Array xs \<Rightarrow> push_all xs args1
              | Scalar s \<Rightarrow> args1 @ [s]))"

definition setUpConvertArgs :: "transform \<Rightarrow> string list" where
  "setUpConvertArgs t = fold setUpConvertArgs_step t []"

text \<open>
  The contract in the words of the specification: per key other than \<open>format\<close>, one
  dash-prefixed flag followed by the scalar or by the list elements in order.
\<close>

definition flag_tokens :: "string \<times> argval \<Rightarrow> string list" where
  "flag_tokens kv =
     (case kv of (k, v) \<Rightarrow> (CHR ''-'' # k) # (case v of Scalar s \<Rightarrow> [s] | Array xs \<Rightarrow> xs))"

definition spec_convert_args :: "transform \<Rightarrow> string list" where
  "spec_convert_args t = concat (map flag_tokens (filter (\<lambda>kv. fst kv \<noteq> ''format'') t))"

section \<open>willOverwrite\<close>

text \<open>
  \<open>result\<close> starts as \<open>false\<close> and is assigned \<open>!!model[name].url\<close> for each name in turn.
\<close>

definition willOverwrite :: "config \<Rightarrow> model \<Rightarrow> bool" where
  "willOverwrite cfg m = fold (\<lambda>kv result. truthy (url (m (fst kv)))) (transforms cfg) False"

section \<open>Collaborators\<close>

text \<open>
  The conversion engine (\<open>gm\<close>), the filesystem, the MIME oracle and the path helpers of
  Node are outside the module. Each asynchronous operation is a function of the outside
  world \<open>'w\<close> that yields what its callback receives (an error, or the value) and the
  world afterwards. \<open>gm(...).identify\<close> passes its data object whenever it passes no
  error, so the \<open>!attributes\<close> test of \<open>process\<close> is false on every result of this type.
  Both engine operations take the \<open>imageMagick\<close> option.
\<close>

record 'w env =
  gm_identify :: "bool option \<Rightarrow> string \<Rightarrow> 'w \<Rightarrow> (error + attributes) \<times> 'w"
  gm_convert :: "bool option \<Rightarrow> string \<Rightarrow> string list \<Rightarrow> string \<Rightarrow> 'w \<Rightarrow> error option \<times> 'w"
  fs_stat :: "string \<Rightarrow> 'w \<Rightarrow> (error + stats) \<times> 'w"
  detectFile :: "string \<Rightarrow> 'w \<Rightarrow> (error + string) \<times> 'w"
  path_extname :: "string \<Rightarrow> string"
  path_join :: "string \<Rightarrow> string \<Rightarrow> string"
  os_tmpdir :: string
  mkdirp_sync :: "string \<Rightarrow> 'w \<Rightarrow> error option \<times> 'w"

record 'w storageProvider =
  sp_save :: "blob \<Rightarrow> 'w \<Rightarrow> (error + string) \<times> 'w"
  sp_remove :: "subrecord \<Rightarrow> 'w \<Rightarrow> error option \<times> 'w"

section \<open>Events\<close>

text \<open>
  What the module does to its collaborators is recorded in a trace: a call when it is
  issued, its return when the callback fires, the write to the model, and the invocation
  of a task's own callback. Events of the tasks handed to \<open>async.parallel\<close> carry the
  index of the task.
\<close>

datatype op =
    Convert string "string list" string
  | Identify string
  | Stat string
  | DetectFile string
  | Save blob
  | Remove string subrecord

datatype uevent =
    Call op
  | Ret "error option"
  | WriteModel
  | Done "error option"

datatype event =
    SourceIdentify string
  | UnitEv nat uevent

fun proj :: "nat \<Rightarrow> event list \<Rightarrow> uevent list" where
  "proj i [] = []"
| "proj i (UnitEv j e # tr) = (if i = j then e # proj i tr else proj i tr)"
| "proj i (SourceIdentify p # tr) = proj i tr"

fun first_error :: "event list \<Rightarrow> error option" where
  "first_error [] = None"
| "first_error (UnitEv i (Done (Some e)) # tr) = Some e"
| "first_error (ev # tr) = first_error tr"

fun is_save :: "event \<Rightarrow> bool" where
  "is_save (UnitEv i (Call (Save b))) = True"
| "is_save ev = False"

section \<open>async.parallel\<close>

text \<open>
  The bookkeeping of \<open>async.parallel(tasks, callback)\<close>: \<open>total\<close> is \<open>tasks.length\<close>,
  \<open>completed\<close> counts the tasks that called back without an error, and \<open>calls\<close> lists
  the invocations of \<open>callback\<close>, which the library wraps so that only the first one
  goes through. A task that calls back with an error triggers \<open>callback(err)\<close>; the
  last task to call back without one triggers \<open>callback(null)\<close>.
\<close>

record 'w par =
  world :: 'w
  trace :: "event list"
  total :: nat
  completed :: nat
  calls :: "error option list"

definition once_callback :: "error option \<Rightarrow> ('w, 'z) par_scheme \<Rightarrow> ('w, 'z) par_scheme" where
  "once_callback r s = (if calls s = [] then s\<lparr>calls := [r]\<rparr> else s)"

definition task_done :: "error option \<Rightarrow> ('w, 'z) par_scheme \<Rightarrow> ('w, 'z) par_scheme" where
  "task_done r s =
     (case r of
        Some e \<Rightarrow> once_callback (Some e) s
      | None \<Rightarrow>
          (let s' = s\<lparr>completed := completed s + 1\<rparr>
           in if completed s' = total s' then once_callback None s' else s'))"

section \<open>TransformUnits\<close>

text \<open>
  The operation of a unit that is in flight carries what the waterfall has handed on so
  far; a unit that has failed remembers the operation that failed.
\<close>

datatype inflight =
    Converting
  | Inspecting
  | Stating attributes
  | Sniffing attributes stats
  | Storing attributes stats string

datatype stage =
    Pending
  | Running inflight
  | Committed attributes stats string string
  | Failed inflight error

record tunit =
  u_name :: string
  u_transform :: transform
  u_outputFile :: string
  u_stage :: stage

record 'w pstate = "'w par" +
  model :: model
  units :: "tunit list"
  uncaught :: "error option"

section \<open>Temporary output paths\<close>

text \<open>
  \<open>transform.format ? transform.format : path.extname(attachment.path)\<close>, then the dot
  test. A format that is an array is truthy and has no \<open>substring\<close>: the call throws.
\<close>

definition dot_prefix :: "string \<Rightarrow> string" where
  "dot_prefix extension = (if take 1 extension \<noteq> ''.'' then ''.'' @ extension else extension)"

definition extension_of :: "'w env \<Rightarrow> attachment \<Rightarrow> transform \<Rightarrow> error + string" where
  "extension_of env att t =
     (case map_of t ''format'' of
        Some (Array xs) \<Rightarrow> Inl (Error ''extension.substring is not a function'')
      | Some (Scalar s) \<Rightarrow>
          Inr (dot_prefix (if s \<noteq> [] then s else path_extname env (att_path att)))
      | None \<Rightarrow> Inr (dot_prefix (path_extname env (att_path att))))"

text \<open>
  The \<open>forEach\<close> of \<open>process\<close> over \<open>Object.keys(this._options.transforms)\<close>: one task per
  name, each with its own output file. The loop stops where \<open>substring\<close> throws.
\<close>

fun setUpTasks ::
  "'w env \<Rightarrow> config \<Rightarrow> attachment \<Rightarrow> (string \<times> transform) list \<Rightarrow> tunit list \<Rightarrow> rng
     \<Rightarrow> error option \<times> tunit list \<times> rng" where
  "setUpTasks env cfg att [] tasks g = (None, tasks, g)"
| "setUpTasks env cfg att (nt # rest) tasks g =
     (case extension_of env att (snd nt) of
        Inl e \<Rightarrow> (Some e, tasks, g)
      | Inr extension \<Rightarrow>
          (case randomString 20 g of
             (r, g') \<Rightarrow>
               setUpTasks env cfg att rest
                 (tasks @ [\<lparr>u_name = fst nt, u_transform = snd nt,
                            u_outputFile = path_join env (tmpDir cfg) (r @ extension),
                            u_stage = Pending\<rparr>]) g'))"

section \<open>_setUpTransform\<close>

definition call_convert :: "attachment \<Rightarrow> tunit \<Rightarrow> uevent" where
  "call_convert att u =
     Call (Convert (att_path att) (setUpConvertArgs (u_transform u)) (u_outputFile u))"

definition save_blob :: "tunit \<Rightarrow> stats \<Rightarrow> string \<Rightarrow> blob" where
  "save_blob u st mimeType =
     \<lparr>blob_path = u_outputFile u, blob_size = stat_size st, blob_type = mimeType\<rparr>"

text \<open>
  The waterfall of one task. \<open>advance\<close> completes the operation in flight: an error goes to
  the final callback (the unit fails), a value starts the next operation. It yields the
  new stage, the events and the world afterwards.
\<close>

definition advance ::
  "'w env \<Rightarrow> 'w storageProvider \<Rightarrow> config \<Rightarrow> attachment \<Rightarrow> tunit \<Rightarrow> inflight \<Rightarrow> 'w
     \<Rightarrow> stage \<times> uevent list \<times> 'w" where
  "advance env sp cfg att u fl w =
     (case fl of
        Converting \<Rightarrow>
          (case gm_convert env (imageMagick cfg) (att_path att)
                  (setUpConvertArgs (u_transform u)) (u_outputFile u) w of
             (Some e, w') \<Rightarrow> (Failed fl e, [Ret (Some e), Done (Some e)], w')
           | (None, w') \<Rightarrow>
               (Running Inspecting, [Ret None, Call (Identify (u_outputFile u))], w'))
      | Inspecting \<Rightarrow>
          (case gm_identify env (imageMagick cfg) (u_outputFile u) w of
             (Inl e, w') \<Rightarrow> (Failed fl e, [Ret (Some e), Done (Some e)], w')
           | (Inr a, w') \<Rightarrow>
               (Running (Stating a), [Ret None, Call (Stat (u_outputFile u))], w'))
      | Stating a \<Rightarrow>
          (case fs_stat env (u_outputFile u) w of
             (Inl e, w') \<Rightarrow> (Failed fl e, [Ret (Some e), Done (Some e)], w')
           | (Inr st, w') \<Rightarrow>
               (Running (Sniffing a st), [Ret None, Call (DetectFile (u_outputFile u))], w'))
      | Sniffing a st \<Rightarrow>
          (case detectFile env (u_outputFile u) w of
             (Inl e, w') \<Rightarrow> (Failed fl e, [Ret (Some e), Done (Some e)], w')
           | (Inr mimeType, w') \<Rightarrow>
               (Running (Storing a st mimeType),
                [Ret None, Call (Save (save_blob u st mimeType))], w'))
      | Storing a st mimeType \<Rightarrow>
          (case sp_save sp (save_blob u st mimeType) w of
             (Inl e, w') \<Rightarrow> (Failed fl e, [Ret (Some e), Done (Some e)], w')
           | (Inr u', w') \<Rightarrow>
               (Committed a st mimeType u', [Ret None, WriteModel, Done None], w')))"

text \<open>The eight assignments of the final callback, made when it receives no error.\<close>

definition commit ::
  "attachment \<Rightarrow> attributes \<Rightarrow> stats \<Rightarrow> string \<Rightarrow> string \<Rightarrow> subrecord \<Rightarrow> subrecord" where
  "commit att a st mimeType u r =
     r\<lparr>format := Some (attr_format a),
       depth := Some (attr_depth a),
       width := Some (attr_width a),
       height := Some (attr_height a),
       size_f := Some (stat_size st),
       url := Some u,
       name := Some (att_name att),
       type_f := Some mimeType\<rparr>"

text \<open>
  One callback of task \<open>i\<close> fires. A task that is not in flight has nothing pending.
  When the waterfall ends, the final callback writes the model unless it got an error and
  calls the task's callback, which is the bookkeeping of \<open>async.parallel\<close>.
\<close>

definition step ::
  "'w env \<Rightarrow> 'w storageProvider \<Rightarrow> config \<Rightarrow> attachment \<Rightarrow> nat \<Rightarrow> 'w pstate \<Rightarrow> 'w pstate" where
  "step env sp cfg att i s =
     (if i < length (units s) then
        (let u = units s ! i in
         case u_stage u of
           Running fl \<Rightarrow>
             (case advance env sp cfg att u fl (world s) of
                (st', es, w') \<Rightarrow>
                  (let s1 = s\<lparr>world := w',
                              trace := trace s @ map (UnitEv i) es,
                              units := (units s)[i := u\<lparr>u_stage := st'\<rparr>]\<rparr>
                   in case st' of
                        Committed a st mimeType u' \<Rightarrow>
                          task_done None
                            (s1\<lparr>model := (model s1)
                                  (u_name u := commit att a st mimeType u' (model s1 (u_name u)))\<rparr>)
                      | Failed fl' e \<Rightarrow> task_done (Some e) s1
                      | _ \<Rightarrow> s1))
         | _ \<Rightarrow> s)
      else s)"

text \<open>
  \<open>async.parallel(tasks, ...)\<close> with no task calls back at once; otherwise it starts every
  task in order, and each task issues its \<open>convert\<close>.
\<close>

definition parallel_start :: "attachment \<Rightarrow> 'w pstate \<Rightarrow> 'w pstate" where
  "parallel_start att s =
     (let s' = s\<lparr>total := length (units s)\<rparr>
      in if units s = [] then once_callback None s'
         else s'\<lparr>trace := trace s @ map (\<lambda>iu. UnitEv (fst iu) (call_convert att (snd iu)))
                                      (enumerate 0 (units s)),
                units := map (\<lambda>u. u\<lparr>u_stage := Running Converting\<rparr>) (units s)\<rparr>)"

section \<open>process\<close>

definition process ::
  "'w env \<Rightarrow> config \<Rightarrow> attachment \<Rightarrow> model \<Rightarrow> rng \<Rightarrow> 'w \<Rightarrow> 'w pstate" where
  "process env cfg att m g w =
     (case gm_identify env (imageMagick cfg) (att_path att) w of
        (r, w1) \<Rightarrow>
          (let s0 = \<lparr>world = w1, trace = [SourceIdentify (att_path att)], total = 0,
                     completed = 0, calls = [], model = m, units = [], uncaught = None\<rparr>
           in case r of
                Inl e \<Rightarrow> s0\<lparr>calls := [Some e]\<rparr>
              | Inr a \<Rightarrow>
                  if attr_format a \<notin> set (formats cfg)
                  then s0\<lparr>calls := [Some not_an_image]\<rparr>
                  else (case setUpTasks env cfg att (transforms cfg) [] g of
                          (Some e, tasks, g') \<Rightarrow> s0\<lparr>units := tasks, uncaught := Some e\<rparr>
                        | (None, tasks, g') \<Rightarrow> parallel_start att (s0\<lparr>units := tasks\<rparr>))))"

text \<open>
  The callbacks fire in some order: a schedule names, one after the other, the task whose
  pending callback fires next.
\<close>

definition run ::
  "'w env \<Rightarrow> 'w storageProvider \<Rightarrow> config \<Rightarrow> attachment \<Rightarrow> nat list \<Rightarrow> 'w pstate \<Rightarrow> 'w pstate" where
  "run env sp cfg att sch s = fold (step env sp cfg att) sch s"

section \<open>Notions used in the statements\<close>

text \<open>What a task keeps for good: its name, its TransformSpec and its output file.\<close>

definition static :: "tunit \<Rightarrow> string \<times> transform \<times> string" where
  "static u = (u_name u, u_transform u, u_outputFile u)"

definition entry :: "tunit \<Rightarrow> string \<times> transform" where
  "entry u = (u_name u, u_transform u)"

text \<open>
  The extension a task is given before the dot test: the format of its TransformSpec
  when that is a non-empty string, the extension of the attachment's path otherwise.
\<close>

definition supplied_extension :: "'w env \<Rightarrow> attachment \<Rightarrow> transform \<Rightarrow> string" where
  "supplied_extension env att t =
     (case map_of t ''format'' of
        Some (Scalar f) \<Rightarrow> if f \<noteq> [] then f else path_extname env (att_path att)
      | _ \<Rightarrow> path_extname env (att_path att))"

text \<open>
  The same in the words of the claim on temporary paths: the format whenever the key is
  present, the extension of the attachment's path otherwise.
\<close>

definition claimed_extension :: "'w env \<Rightarrow> attachment \<Rightarrow> transform \<Rightarrow> string" where
  "claimed_extension env att t =
     (case map_of t ''format'' of
        Some (Scalar f) \<Rightarrow> f
      | _ \<Rightarrow> path_extname env (att_path att))"

definition allocated :: "'w env \<Rightarrow> config \<Rightarrow> attachment \<Rightarrow> tunit \<Rightarrow> bool" where
  "allocated env cfg att u =
     (\<exists>r. u_outputFile u =
            path_join env (tmpDir cfg) (r @ dot_prefix (supplied_extension env att (u_transform u)))
        \<and> length r = 20 \<and> set r \<subseteq> set hexdigits)"

section \<open>The history of a task\<close>

text \<open>
  What task \<open>i\<close> has done is the part of the trace that carries its index. The stages of
  a TransformUnit in the order of the waterfall: \<open>convert\<close> from the attachment to the
  output file, then \<open>identify\<close>, \<open>fs.stat\<close> and \<open>detectFile\<close> on that output file, then
  \<open>save\<close> of the descriptor made of the output file, the size \<open>fs.stat\<close> returned and the
  type \<open>detectFile\<close> returned. \<open>inflight_history\<close> lists the events of a task whose
  operation is in flight: every earlier operation has returned without an error.
\<close>

definition inflight_history :: "attachment \<Rightarrow> tunit \<Rightarrow> inflight \<Rightarrow> uevent list" where
  "inflight_history att u fl =
     (case fl of
        Converting \<Rightarrow> [call_convert att u]
      | Inspecting \<Rightarrow>
          [call_convert att u, Ret None, Call (Identify (u_outputFile u))]
      | Stating a \<Rightarrow>
          [call_convert att u, Ret None, Call (Identify (u_outputFile u)),
           Ret None, Call (Stat (u_outputFile u))]
      | Sniffing a st \<Rightarrow>
          [call_convert att u, Ret None, Call (Identify (u_outputFile u)),
           Ret None, Call (Stat (u_outputFile u)),
           Ret None, Call (DetectFile (u_outputFile u))]
      | Storing a st mimeType \<Rightarrow>
          [call_convert att u, Ret None, Call (Identify (u_outputFile u)),
           Ret None, Call (Stat (u_outputFile u)),
           Ret None, Call (DetectFile (u_outputFile u)),
           Ret None, Call (Save (save_blob u st mimeType))])"

text \<open>
  A task that has not been started has done nothing. A committed task has seen \<open>save\<close>
  return, has written the model and has called back without an error. A failed task has
  seen the operation in flight return the error and has called back with it, and nothing
  else.
\<close>

definition history :: "attachment \<Rightarrow> tunit \<Rightarrow> uevent list" where
  "history att u =
     (case u_stage u of
        Pending \<Rightarrow> []
      | Running fl \<Rightarrow> inflight_history att u fl
      | Committed a st mimeType u' \<Rightarrow>
          inflight_history att u (Storing a st mimeType) @ [Ret None, WriteModel, Done None]
      | Failed fl e \<Rightarrow> inflight_history att u fl @ [Ret (Some e), Done (Some e)])"

fun is_committed :: "stage \<Rightarrow> bool" where
  "is_committed (Committed a st mimeType u') = True"
| "is_committed st = False"

fun is_failed :: "stage \<Rightarrow> bool" where
  "is_failed (Failed fl e) = True"
| "is_failed st = False"

fun is_running :: "stage \<Rightarrow> bool" where
  "is_running (Running fl) = True"
| "is_running st = False"

text \<open>The number of operations of a task that have returned without an error.\<close>

definition successes :: "uevent list \<Rightarrow> nat" where
  "successes h = length (filter (\<lambda>e. e = Ret None) h)"

text \<open>What the sub-record of a task holds, given the sub-record \<open>process\<close> was called with.\<close>

definition expected_sub :: "attachment \<Rightarrow> model \<Rightarrow> tunit \<Rightarrow> subrecord" where
  "expected_sub att m0 u =
     (case u_stage u of
        Committed a st mimeType u' \<Rightarrow> commit att a st mimeType u' (m0 (u_name u))
      | _ \<Rightarrow> m0 (u_name u))"

text \<open>The number of callbacks a task still waits for, at most.\<close>

fun remaining :: "stage \<Rightarrow> nat" where
  "remaining (Running Converting) = 5"
| "remaining (Running Inspecting) = 4"
| "remaining (Running (Stating a)) = 3"
| "remaining (Running (Sniffing a st)) = 2"
| "remaining (Running (Storing a st mt)) = 1"
| "remaining st = 0"

definition stage_error :: "stage \<Rightarrow> error option" where
  "stage_error st = (case st of Failed fl e \<Rightarrow> Some e | _ \<Rightarrow> None)"

text \<open>
  The operations a task has called, and the five calls of the waterfall in its order,
  given what \<open>fs.stat\<close> and \<open>detectFile\<close> return.
\<close>

fun called :: "uevent \<Rightarrow> op list" where
  "called (Call c) = [c]"
| "called e = []"

definition calls_of :: "uevent list \<Rightarrow> op list" where
  "calls_of h = concat (map called h)"

definition stage_calls :: "attachment \<Rightarrow> tunit \<Rightarrow> stats \<Rightarrow> string \<Rightarrow> op list" where
  "stage_calls att u st mimeType =
     [Convert (att_path att) (setUpConvertArgs (u_transform u)) (u_outputFile u),
      Identify (u_outputFile u),
      Stat (u_outputFile u),
      DetectFile (u_outputFile u),
      Save \<lparr>blob_path = u_outputFile u, blob_size = stat_size st, blob_type = mimeType\<rparr>]"

section \<open>Invariants of the parallel phase\<close>

definition unit_traces :: "attachment \<Rightarrow> 'w pstate \<Rightarrow> bool" where
  "unit_traces att s = (\<forall>k < length (units s). proj k (trace s) = history att (units s ! k))"



definition model_inv :: "attachment \<Rightarrow> model \<Rightarrow> 'w pstate \<Rightarrow> bool" where
  "model_inv att m0 s =
     ((\<forall>k < length (units s). model s (u_name (units s ! k)) = expected_sub att m0 (units s ! k))
      \<and> (\<forall>n. n \<notin> set (map u_name (units s)) \<longrightarrow> model s n = m0 n))"

text \<open>The state in which the callback of the first \<open>identify\<close> runs.\<close>

definition initial :: "'w \<Rightarrow> attachment \<Rightarrow> model \<Rightarrow> 'w pstate" where
  "initial w1 att m =
     \<lparr>world = w1, trace = [SourceIdentify (att_path att)], total = 0, completed = 0,
      calls = [], model = m, units = [], uncaught = None\<rparr>"


section \<open>remove\<close>

text \<open>
  \<open>remove\<close> pushes one task per transform name whose sub-record has a truthy \<open>url\<close> and
  hands the tasks to \<open>async.parallel\<close>, which starts them all: each calls
  \<open>storageProvider.remove(model[name], callback)\<close>, so the provider calls the task's
  callback itself. A step is one provider calling back.
\<close>

datatype rstage = Removing | Removed | RemoveFailed error

record 'w rstate = "'w par" +
  r_tasks :: "(string \<times> rstage) list"

definition removal_names :: "config \<Rightarrow> model \<Rightarrow> string list" where
  "removal_names cfg m =
     fold (\<lambda>nt tasks. if \<not> truthy (url (m (fst nt))) then tasks else tasks @ [fst nt])
       (transforms cfg) []"

definition remove :: "config \<Rightarrow> model \<Rightarrow> 'w \<Rightarrow> 'w rstate" where
  "remove cfg m w =
     (let names = removal_names cfg m;
          s = \<lparr>world = w, trace = [], total = length names, completed = 0, calls = [],
               r_tasks = map (\<lambda>n. (n, Removing)) names\<rparr>
      in if names = [] then once_callback None s
         else s\<lparr>trace := map (\<lambda>iu. UnitEv (fst iu) (Call (Remove (snd iu) (m (snd iu)))))
                             (enumerate 0 names)\<rparr>)"

definition remove_step :: "'w storageProvider \<Rightarrow> model \<Rightarrow> nat \<Rightarrow> 'w rstate \<Rightarrow> 'w rstate" where
  "remove_step sp m i s =
     (if i < length (r_tasks s) then
        (case r_tasks s ! i of
           (n, Removing) \<Rightarrow>
             (case sp_remove sp (m n) (world s) of
                (r, w') \<Rightarrow>
                  task_done r
                    (s\<lparr>world := w',
                       trace := trace s @ [UnitEv i (Done r)],
                       r_tasks := (r_tasks s)
                         [i := (n, case r of None \<Rightarrow> Removed | Some e \<Rightarrow> RemoveFailed e)]\<rparr>))
         | _ \<Rightarrow> s)
      else s)"

definition remove_run :: "'w storageProvider \<Rightarrow> model \<Rightarrow> nat list \<Rightarrow> 'w rstate \<Rightarrow> 'w rstate" where
  "remove_run sp m sch s = fold (remove_step sp m) sch s"

text \<open>The calls of \<open>storageProvider.remove\<close> in a trace: the name and the sub-record passed.\<close>

fun remove_call :: "event \<Rightarrow> (string \<times> subrecord) list" where
  "remove_call (UnitEv i (Call (Remove n r))) = [(n, r)]"
| "remove_call ev = []"

definition remove_calls :: "event list \<Rightarrow> (string \<times> subrecord) list" where
  "remove_calls tr = concat (map remove_call tr)"

section \<open>The constructor\<close>

text \<open>
  The caller's options object lives in a heap of objects and is handed over by reference.
  Each of its properties may be absent. The constructor asserts that the options and
  their \<open>transforms\<close> are objects, stores the reference in \<open>this._options\<close>, assigns the
  defaults through it and creates the directory; \<open>mkdirp.sync\<close> may throw, and would
  throw on an undefined path, which \<open>tmpDir\<close> no longer is at that point. The MIME oracle
  that the constructor creates has no state of its own; its \<open>detectFile\<close> is among the
  collaborators.
\<close>

type_synonym ref = nat

record options =
  opt_transforms :: "(string \<times> transform) list option"
  opt_tmpDir :: "string option"
  opt_formats :: "string list option"
  opt_imageMagick :: "bool option"

type_synonym heap = "ref \<Rightarrow> options option"

record graphics_magick =
  this_options :: ref

definition SUPPORTED_FORMATS :: "string list" where
  "SUPPORTED_FORMATS = [''JPEG'', ''PNG'', ''GIF'', ''TIFF'']"

definition constructor ::
  "'w env \<Rightarrow> ref option \<Rightarrow> heap \<Rightarrow> 'w \<Rightarrow> (error + graphics_magick) \<times> heap \<times> 'w" where
  "constructor env arg h w =
     (case arg of
        None \<Rightarrow> (Inl (Error ''Some options are required!''), h, w)
      | Some r \<Rightarrow>
          (case h r of
             None \<Rightarrow> (Inl (Error ''Some options are required!''), h, w)
           | Some opts \<Rightarrow>
               (case opt_transforms opts of
                  None \<Rightarrow> (Inl (Error ''Some transforms are required!''), h, w)
                | Some ts \<Rightarrow>
                    (let o1 = (if \<not> truthy (opt_tmpDir opts)
                               then opts\<lparr>opt_tmpDir := Some (os_tmpdir env)\<rparr> else opts);
                         o2 = (if opt_formats o1 = None
                               then o1\<lparr>opt_formats := Some SUPPORTED_FORMATS\<rparr> else o1);
                         h' = h(r \<mapsto> o2)
                     in case opt_tmpDir o2 of
                          None \<Rightarrow> (Inl (Error ''path must be a string''), h', w)
                        | Some d \<Rightarrow>
                            (case mkdirp_sync env d w of
                               (Some e, w') \<Rightarrow> (Inl e, h', w')
                             | (None, w') \<Rightarrow> (Inr \<lparr>this_options = r\<rparr>, h', w'))))))"

text \<open>The options object as the methods read it, once every property they use is set.\<close>

definition config_of :: "options \<Rightarrow> config option" where
  "config_of opts =
     (case (opt_transforms opts, opt_tmpDir opts, opt_formats opts) of
        (Some ts, Some d, Some fs) \<Rightarrow>
          Some \<lparr>transforms = ts, tmpDir = d, formats = fs, imageMagick = opt_imageMagick opts\<rparr>
      | _ \<Rightarrow> None)"

section \<open>A concrete environment\<close>

text \<open>
  Collaborators for the instances below. The world is a counter of the operations
  performed. The engine fails to identify \<open>/up/broken\<close>, identifies \<open>/up/a.bmp\<close> as BMP and
  every other file as PNG; \<open>/up/noext\<close> has no extension.
\<close>

definition ex_env :: "nat env" where
  "ex_env =
     \<lparr>gm_identify = (\<lambda>im p w.
        (if p = ''/up/broken'' then Inl (Error ''identify failed'')
         else Inr \<lparr>attr_format = (if p = ''/up/a.bmp'' then ''BMP'' else ''PNG''),
                   attr_depth = 8, attr_width = 640, attr_height = 480\<rparr>, Suc w)),
      gm_convert = (\<lambda>im p args out w. (None, Suc w)),
      fs_stat = (\<lambda>p w. (Inr \<lparr>stat_size = 1024\<rparr>, Suc w)),
      detectFile = (\<lambda>p w. (Inr ''image/png'', Suc w)),
      path_extname = (\<lambda>p. if p = ''/up/noext'' then [] else ''.png''),
      path_join = (\<lambda>d f. d @ ''/'' @ f),
      os_tmpdir = ''/tmp'',
      mkdirp_sync = (\<lambda>d w. (None, Suc w))\<rparr>"

definition ex_sp :: "nat storageProvider" where
  "ex_sp =
     \<lparr>sp_save = (\<lambda>b w.
        (if blob_path b = ''/tmp/00000000000000000000.fail'' then Inl (Error ''storage full'')
         else Inr (''http://store'' @ blob_path b), Suc w)),
      sp_remove = (\<lambda>r w. (None, Suc w))\<rparr>"

definition ex_config :: "(string \<times> transform) list \<Rightarrow> config" where
  "ex_config ts =
     \<lparr>transforms = ts, tmpDir = ''/tmp'', formats = [''JPEG'', ''PNG'', ''GIF'', ''TIFF''],
      imageMagick = None\<rparr>"

definition ex_att :: "string \<Rightarrow> attachment" where
  "ex_att p = \<lparr>att_path = p, att_name = ''upload''\<rparr>"

definition ex_model :: model where
  "ex_model =
     (\<lambda>n. \<lparr>format = None, depth = None, width = None, height = None, size_f = None,
           url = None, name = None, type_f = None\<rparr>)"

definition ex_rng :: rng where
  "ex_rng = (\<lambda>i. 0)"

text \<open>
  Two transforms: the second has an output format for which the storage provider above
  refuses the file.
\<close>

definition ex_two :: config where
  "ex_two = ex_config [(''thumb'', [(''resize'', Scalar ''100x100''), (''format'', Scalar ''jpg'')]),
                       (''archive'', [(''format'', Scalar ''.fail'')])]"

text \<open>A model in which only \<open>thumb\<close> has been stored, and options objects for the constructor.\<close>

definition ex_model_thumb :: model where
  "ex_model_thumb =
     (\<lambda>n. \<lparr>format = None, depth = None, width = None, height = None, size_f = None,
           url = (if n = ''thumb'' then Some ''http://store/thumb.jpg'' else None),
           name = None, type_f = None\<rparr>)"

definition ex_options :: options where
  "ex_options = \<lparr>opt_transforms = Some [(''thumb'', [(''resize'', Scalar ''100x100'')])],
                 opt_tmpDir = None, opt_formats = None, opt_imageMagick = None\<rparr>"

definition ex_options_full :: options where
  "ex_options_full = \<lparr>opt_transforms = Some [(''thumb'', [(''resize'', Scalar ''100x100'')])],
                      opt_tmpDir = Some ''/var/tmp'', opt_formats = Some [''PNG''],
                      opt_imageMagick = Some True\<rparr>"

definition ex_heap :: "options \<Rightarrow> heap" where
  "ex_heap opts = (\<lambda>r. if r = 0 then Some opts else None)"

section \<open>Properties of the argument builder\<close>

lemma push_all_append: "push_all xs args = args @ xs"
  unfolding push_all_def by (induction xs arbitrary: args) simp_all

lemma setUpConvertArgs_step_eq:
  "setUpConvertArgs_step kv args =
     args @ (if fst kv = ''format'' then [] else flag_tokens kv)"
  by (cases kv) (simp add: setUpConvertArgs_step_def flag_tokens_def push_all_append Let_def
      split: argval.split)

lemma fold_setUpConvertArgs_step:
  "fold setUpConvertArgs_step t args = args @ spec_convert_args t"
  by (induction t arbitrary: args)
     (simp_all add: spec_convert_args_def setUpConvertArgs_step_eq)

text \<open>
  Claim C4. For every TransformSpec the argument list built by \<open>_setUpConvertArgs\<close> is the
  concatenation, in key order, of one group per key other than \<open>format\<close>; a group is the
  key prefixed with a single dash followed by the scalar value, or by the elements of the
  list value in their order. The key \<open>format\<close> contributes no token.
\<close>

theorem setUpConvertArgs_contract:
  "setUpConvertArgs t = spec_convert_args t"
  by (simp add: setUpConvertArgs_def fold_setUpConvertArgs_step)

section \<open>Properties of willOverwrite\<close>

lemma fold_last_assign:
  "fold (\<lambda>kv result. f kv) xs r = (if xs = [] then r else f (last xs))"
  by (induction xs arbitrary: r) simp_all

text \<open>
  Claim C7. \<open>willOverwrite\<close> answers whether the sub-record of the last transform name in
  iteration order has a truthy url (and \<open>false\<close> when no transform is configured). It is
  not the disjunction over all names: with two names of which only the first has a url the
  answer is \<open>false\<close>.
\<close>

theorem willOverwrite_last:
  "willOverwrite cfg m =
     (transforms cfg \<noteq> [] \<and> truthy (url (m (fst (last (transforms cfg))))))
   \<and> (willOverwrite
         \<lparr>transforms = [(''thumb'', []), (''large'', [])], tmpDir = ''/tmp'',
          formats = [''PNG''], imageMagick = None\<rparr>
         (\<lambda>n. \<lparr>format = None, depth = None, width = None, height = None, size_f = None,
               url = (if n = ''thumb'' then Some ''http://x/thumb.png'' else None),
               name = None, type_f = None\<rparr>)
       = False)"
  by (simp add: willOverwrite_def fold_last_assign truthy_def)

section \<open>Properties of randomString\<close>

lemma length_toString_hex: "length (toString_hex bs) = 2 * length bs"
  unfolding toString_hex_def by (induction bs) (simp_all add: hex_of_byte_def)

lemma length_hexdigits: "length hexdigits = 16"
  by (simp add: hexdigits_def)

lemma hexdigit_mem: "k < 16 \<Longrightarrow> hexdigits ! k \<in> set hexdigits"
  by (rule nth_mem) (simp add: length_hexdigits)

lemma set_hex_of_byte: "set (hex_of_byte b) \<subseteq> set hexdigits"
proof -
  have "unat b < 256" using unsigned_less [of b] by simp
  then have "unat b div 16 < 16" by simp
  then show ?thesis by (simp add: hex_of_byte_def hexdigit_mem)
qed

lemma set_toString_hex: "set (toString_hex bs) \<subseteq> set hexdigits"
  unfolding toString_hex_def using set_hex_of_byte by auto

lemma length_randomString: "length (fst (randomString len g)) = len"
  by (simp add: randomString_def randomBytes_def length_toString_hex)

lemma set_randomString: "set (fst (randomString len g)) \<subseteq> set hexdigits"
proof -
  have "set (take len (toString_hex bs)) \<subseteq> set hexdigits" for bs
    using set_take_subset set_toString_hex by (rule subset_trans)
  then show ?thesis by (simp add: randomString_def randomBytes_def)
qed

lemma ex_randomString: "randomString 20 ex_rng = (''00000000000000000000'', ex_rng)"
proof -
  have "fst (randomString 20 ex_rng) = ''00000000000000000000''" by code_simp
  moreover have "snd (randomString 20 ex_rng) = ex_rng"
    by (simp add: randomString_def randomBytes_def ex_rng_def)
  ultimately show ?thesis by (simp add: prod_eq_iff)
qed

section \<open>What the bookkeeping and a step leave alone\<close>

lemma once_callback_fields [simp]:
  "world (once_callback r s) = world s" "trace (once_callback r s) = trace s"
  "total (once_callback r s) = total s" "completed (once_callback r s) = completed s"
  by (simp_all add: once_callback_def)

lemma once_callback_more [simp]:
  "units (once_callback r s) = units s" "model (once_callback r s) = model s"
  "uncaught (once_callback r s) = uncaught s"
  by (simp_all add: once_callback_def)

lemma task_done_fields [simp]:
  "world (task_done r s) = world s" "trace (task_done r s) = trace s"
  "total (task_done r s) = total s"
  by (simp_all add: task_done_def Let_def split: option.split)

lemma task_done_more [simp]:
  "units (task_done r s) = units s" "model (task_done r s) = model s"
  "uncaught (task_done r s) = uncaught s"
  by (simp_all add: task_done_def Let_def split: option.split)

lemma map_static_update:
  "i < length us \<Longrightarrow> map static (us[i := (us ! i)\<lparr>u_stage := st\<rparr>]) = map static us"
  by (simp add: map_update static_def list_update_same_conv)

lemma step_units:
  "units (step env sp cfg att i s) = units s \<or>
   (\<exists>st. i < length (units s) \<and>
      units (step env sp cfg att i s) = (units s)[i := (units s ! i)\<lparr>u_stage := st\<rparr>])"
  by (auto simp: step_def Let_def split: stage.splits prod.splits)

lemma step_static: "map static (units (step env sp cfg att i s)) = map static (units s)"
  using step_units [of env sp cfg att i s] by (auto simp: map_static_update)

lemma run_static: "map static (units (run env sp cfg att sch s)) = map static (units s)"
  unfolding run_def by (induction sch arbitrary: s) (simp_all add: step_static)

lemma parallel_start_static: "map static (units (parallel_start att s)) = map static (units s)"
  by (simp add: parallel_start_def Let_def static_def)

section \<open>Properties of the temporary paths\<close>

lemma extension_of_Inr:
  "extension_of env att t = Inr e \<Longrightarrow> e = dot_prefix (supplied_extension env att t)"
  by (auto simp: extension_of_def supplied_extension_def split: option.splits argval.splits)

lemma setUpTasks_allocated:
  "setUpTasks env cfg att ts tasks g = (err, tasks', g') \<Longrightarrow>
   \<forall>u \<in> set tasks. allocated env cfg att u \<Longrightarrow> \<forall>u \<in> set tasks'. allocated env cfg att u"
proof (induction ts arbitrary: tasks g)
  case Nil
  then show ?case by simp
next
  case (Cons nt rest)
  show ?case
  proof (cases "extension_of env att (snd nt)")
    case (Inl e)
    with Cons.prems show ?thesis by simp
  next
    case (Inr e)
    obtain r g1 where rs: "randomString 20 g = (r, g1)" by (cases "randomString 20 g")
    let ?u = "\<lparr>u_name = fst nt, u_transform = snd nt,
               u_outputFile = path_join env (tmpDir cfg) (r @ e), u_stage = Pending\<rparr>"
    have r: "length r = 20" "set r \<subseteq> set hexdigits"
      using length_randomString [of 20 g] set_randomString [of 20 g] rs by simp_all
    have "allocated env cfg att ?u"
      unfolding allocated_def using r extension_of_Inr [OF Inr] by auto
    with Cons.prems(2) have all: "\<forall>u \<in> set (tasks @ [?u]). allocated env cfg att u" by simp
    from Cons.prems(1) Inr rs
    have "setUpTasks env cfg att rest (tasks @ [?u]) g1 = (err, tasks', g')" by simp
    from Cons.IH [OF this all] show ?thesis .
  qed
qed


lemma allocated_static:
  "static u = static u' \<Longrightarrow> allocated env cfg att u = allocated env cfg att u'"
  by (simp add: static_def allocated_def)

lemma allocated_transfer:
  assumes "map static us = map static ts" "\<forall>u \<in> set ts. allocated env cfg att u"
  shows "\<forall>u \<in> set us. allocated env cfg att u"
proof
  fix u assume "u \<in> set us"
  then have "static u \<in> set (map static us)" by simp
  then have "static u \<in> set (map static ts)" by (simp add: assms(1))
  then obtain u' where "u' \<in> set ts" "static u = static u'" by auto
  with assms(2) allocated_static show "allocated env cfg att u" by blast
qed

lemma process_units_cases:
  "units (process env cfg att m g w) = [] \<or>
   (\<exists>err tasks g'. setUpTasks env cfg att (transforms cfg) [] g = (err, tasks, g')
      \<and> map static (units (process env cfg att m g w)) = map static tasks)"
  by (auto simp: process_def Let_def parallel_start_static
      split: sum.splits option.splits prod.splits)

lemma process_allocated:
  "\<forall>u \<in> set (units (process env cfg att m g w)). allocated env cfg att u"
  using process_units_cases [of env cfg att m g w]
proof
  assume "units (process env cfg att m g w) = []"
  then show ?thesis by simp
next
  assume "\<exists>err tasks g'. setUpTasks env cfg att (transforms cfg) [] g = (err, tasks, g')
      \<and> map static (units (process env cfg att m g w)) = map static tasks"
  then obtain err tasks g'
    where su: "setUpTasks env cfg att (transforms cfg) [] g = (err, tasks, g')"
      and st: "map static (units (process env cfg att m g w)) = map static tasks" by blast
  have "\<forall>u \<in> set tasks. allocated env cfg att u"
    using setUpTasks_allocated [OF su] by simp
  with st show ?thesis by (rule allocated_transfer)
qed

lemma run_process_allocated:
  "\<forall>u \<in> set (units (run env sp cfg att sch (process env cfg att m g w))).
     allocated env cfg att u"
  using run_static process_allocated by (rule allocated_transfer)

lemma take1_dot_prefix: "take 1 (dot_prefix e) = ''.''"
  by (simp add: dot_prefix_def)

text \<open>
  Claim C8, as the code has it. Whatever the schedule, the output file of every task that
  \<open>process\<close> sets up is \<open>path.join(tmpDir, r + e)\<close>, where \<open>r\<close> is 20 characters out of
  \<open>0123456789abcdef\<close> and \<open>e\<close> is the supplied extension after the dot test: \<open>e\<close> begins
  with a dot, which is prepended exactly when the supplied extension does not begin with
  one. The supplied extension is the format of the TransformSpec when that is a non-empty
  string, and the extension of the attachment's path otherwise.
\<close>

theorem temp_path_form:
  assumes "s = run env sp cfg att sch (process env cfg att m g w)"
    and "i < length (units s)"
    and "x = supplied_extension env att (u_transform (units s ! i))"
  shows "(\<exists>r. u_outputFile (units s ! i) = path_join env (tmpDir cfg) (r @ dot_prefix x)
            \<and> length r = 20 \<and> set r \<subseteq> set ''0123456789abcdef'')
       \<and> take 1 (dot_prefix x) = ''.''
       \<and> dot_prefix x = (if take 1 x = ''.'' then x else CHR ''.'' # x)"
proof -
  from assms(2) have "units s ! i \<in> set (units s)" by simp
  then have "allocated env cfg att (units s ! i)"
    using run_process_allocated [of env sp cfg att sch m g w] by (simp add: assms(1))
  then show ?thesis
    unfolding allocated_def assms(3) hexdigits_def
    by (simp add: take1_dot_prefix) (simp add: dot_prefix_def)
qed

theorem temp_path_form_witness:
  "0 < length (units (run ex_env ex_sp (ex_config [(''thumb'', [(''format'', Scalar ''jpg'')])])
                   (ex_att ''/up/a.png'') [0]
                   (process ex_env (ex_config [(''thumb'', [(''format'', Scalar ''jpg'')])])
                      (ex_att ''/up/a.png'') ex_model ex_rng 0)))
   \<and> supplied_extension ex_env (ex_att ''/up/a.png'') [(''format'', Scalar ''jpg'')] = ''jpg''
   \<and> (\<exists>r. u_outputFile
             (units (run ex_env ex_sp (ex_config [(''thumb'', [(''format'', Scalar ''jpg'')])])
                       (ex_att ''/up/a.png'') [0]
                       (process ex_env (ex_config [(''thumb'', [(''format'', Scalar ''jpg'')])])
                          (ex_att ''/up/a.png'') ex_model ex_rng 0)) ! 0)
           = ''/tmp/'' @ r @ ''.jpg'' \<and> length r = 20)"
proof -
  let ?cfg = "ex_config [(''thumb'', [(''format'', Scalar ''jpg'')])]"
  let ?s = "run ex_env ex_sp ?cfg (ex_att ''/up/a.png'') [0]
              (process ex_env ?cfg (ex_att ''/up/a.png'') ex_model ex_rng 0)"
  have len: "0 < length (units ?s)" by code_simp
  have tr: "u_transform (units ?s ! 0) = [(''format'', Scalar ''jpg'')]" by code_simp
  have sup: "supplied_extension ex_env (ex_att ''/up/a.png'') [(''format'', Scalar ''jpg'')] = ''jpg''"
    by code_simp
  have dp: "dot_prefix ''jpg'' = ''.jpg''" by code_simp
  have pj: "path_join ex_env (tmpDir ?cfg) f = ''/tmp/'' @ f" for f
    by (simp add: ex_env_def ex_config_def)
  from temp_path_form [OF refl len refl]
  show ?thesis using len by (auto simp: tr sup dp pj)
qed

text \<open>
  The claim as it is worded takes the format whenever the key is present. A TransformSpec
  whose format is the empty string is given the extension of the attachment's path: the
  output file ends in \<open>.png\<close>, where the wording gives a bare dot.
\<close>

theorem temp_path_empty_format_counterexample:
  "u_outputFile
     (units (process ex_env (ex_config [(''thumb'', [(''format'', Scalar [])])])
               (ex_att ''/up/a.png'') ex_model ex_rng 0) ! 0)
     = ''/tmp/00000000000000000000.png''
   \<and> dot_prefix (claimed_extension ex_env (ex_att ''/up/a.png'') [(''format'', Scalar [])])
     = ''.''"
  by code_simp

text \<open>
  Claim C10. A task whose TransformSpec has no \<open>format\<close> key, for an attachment whose path
  has no extension, gets the file name \<open>r + '.'\<close>: 20 hexadecimal characters and a bare
  trailing dot.
\<close>

theorem bare_trailing_dot:
  assumes "s = run env sp cfg att sch (process env cfg att m g w)"
    and "i < length (units s)"
    and "map_of (u_transform (units s ! i)) ''format'' = None"
    and "path_extname env (att_path att) = []"
  shows "extension_of env att (u_transform (units s ! i)) = Inr ''.''
       \<and> (\<exists>r. u_outputFile (units s ! i) = path_join env (tmpDir cfg) (r @ ''.'')
            \<and> length r = 20 \<and> set r \<subseteq> set ''0123456789abcdef'')"
proof -
  from assms(2) have "units s ! i \<in> set (units s)" by simp
  then have "allocated env cfg att (units s ! i)"
    using run_process_allocated [of env sp cfg att sch m g w] by (simp add: assms(1))
  moreover have "supplied_extension env att (u_transform (units s ! i)) = []"
    by (simp add: supplied_extension_def assms(3,4))
  ultimately show ?thesis
    unfolding allocated_def hexdigits_def
    by (simp add: dot_prefix_def extension_of_def assms(3,4))
qed

theorem bare_trailing_dot_witness:
  "0 < length (units (process ex_env (ex_config [(''thumb'', [(''resize'', Scalar ''10x10'')])])
                        (ex_att ''/up/noext'') ex_model ex_rng 0))
   \<and> u_outputFile
       (units (process ex_env (ex_config [(''thumb'', [(''resize'', Scalar ''10x10'')])])
                 (ex_att ''/up/noext'') ex_model ex_rng 0) ! 0)
     = ''/tmp/00000000000000000000.''
   \<and> extension_of ex_env (ex_att ''/up/noext'') [(''resize'', Scalar ''10x10'')] = Inr ''.''"
proof -
  let ?cfg = "ex_config [(''thumb'', [(''resize'', Scalar ''10x10'')])]"
  let ?s = "process ex_env ?cfg (ex_att ''/up/noext'') ex_model ex_rng 0"
  have s: "?s = run ex_env ex_sp ?cfg (ex_att ''/up/noext'') [] ?s" by (simp add: run_def)
  have len: "0 < length (units ?s)" by code_simp
  have tr: "u_transform (units ?s ! 0) = [(''resize'', Scalar ''10x10'')]" by code_simp
  have fm: "map_of (u_transform (units ?s ! 0)) ''format'' = None" by (simp add: tr)
  have ex: "path_extname ex_env (att_path (ex_att ''/up/noext'')) = []"
    by (simp add: ex_env_def ex_att_def)
  have out: "u_outputFile (units ?s ! 0) = ''/tmp/00000000000000000000.''" by code_simp
  from bare_trailing_dot [OF s len fm ex]
  show ?thesis using len out by (simp add: tr)
qed

section \<open>Steps of the parallel phase\<close>

lemma step_idle:
  "\<not> (i < length (units s) \<and> is_running (u_stage (units s ! i))) \<Longrightarrow> step env sp cfg att i s = s"
  by (auto simp: step_def Let_def split: stage.splits)

lemma advance_cases:
  assumes "advance env sp cfg att u fl w = (st', es, w')"
  shows "(\<exists>fl' c. st' = Running fl' \<and> es = [Ret None, Call c] \<and>
            inflight_history att u fl' = inflight_history att u fl @ es)
       \<or> (\<exists>e. st' = Failed fl e \<and> es = [Ret (Some e), Done (Some e)])
       \<or> (\<exists>a st mt url. fl = Storing a st mt \<and> st' = Committed a st mt url \<and>
            es = [Ret None, WriteModel, Done None])"
  using assms
  by (cases fl) (auto simp: advance_def inflight_history_def split: prod.splits option.splits sum.splits)

lemma inflight_history_static:
  "static u = static u' \<Longrightarrow> inflight_history att u fl = inflight_history att u' fl"
  by (simp add: static_def inflight_history_def call_convert_def save_blob_def split: inflight.split)

lemma inflight_history_stage [simp]:
  "inflight_history att (u\<lparr>u_stage := st\<rparr>) fl = inflight_history att u fl"
  by (rule inflight_history_static) (simp add: static_def)

lemma step_running:
  assumes "i < length (units s)" "u_stage (units s ! i) = Running fl"
    and "advance env sp cfg att (units s ! i) fl (world s) = (st', es, w')"
  shows "step env sp cfg att i s =
     (let s1 = s\<lparr>world := w', trace := trace s @ map (UnitEv i) es,
                 units := (units s)[i := (units s ! i)\<lparr>u_stage := st'\<rparr>]\<rparr>
      in case st' of
           Committed a st mimeType u' \<Rightarrow>
             task_done None
               (s1\<lparr>model := (model s1)
                     (u_name (units s ! i) :=
                        commit att a st mimeType u' (model s1 (u_name (units s ! i))))\<rparr>)
         | Failed fl' e \<Rightarrow> task_done (Some e) s1
         | _ \<Rightarrow> s1)"
  using assms by (simp add: step_def Let_def)

lemma step_cases [consumes 2, case_names Next Fail Commit]:
  assumes "i < length (units s)" "u_stage (units s ! i) = Running fl"
  obtains
    (Next) fl' c w' where
      "step env sp cfg att i s =
         s\<lparr>world := w', trace := trace s @ [UnitEv i (Ret None), UnitEv i (Call c)],
           units := (units s)[i := (units s ! i)\<lparr>u_stage := Running fl'\<rparr>]\<rparr>"
      "inflight_history att (units s ! i) fl' =
         inflight_history att (units s ! i) fl @ [Ret None, Call c]"
  | (Fail) e w' where
      "step env sp cfg att i s =
         task_done (Some e)
           (s\<lparr>world := w',
              trace := trace s @ [UnitEv i (Ret (Some e)), UnitEv i (Done (Some e))],
              units := (units s)[i := (units s ! i)\<lparr>u_stage := Failed fl e\<rparr>]\<rparr>)"
  | (Commit) a st mt url w' where
      "fl = Storing a st mt"
      "step env sp cfg att i s =
         task_done None
           (s\<lparr>world := w',
              trace := trace s @ [UnitEv i (Ret None), UnitEv i WriteModel, UnitEv i (Done None)],
              units := (units s)[i := (units s ! i)\<lparr>u_stage := Committed a st mt url\<rparr>],
              model := (model s)
                (u_name (units s ! i) :=
                   commit att a st mt url (model s (u_name (units s ! i))))\<rparr>)"
proof -
  obtain st' es w' where adv:
    "advance env sp cfg att (units s ! i) fl (world s) = (st', es, w')"
    by (cases "advance env sp cfg att (units s ! i) fl (world s)")
  note st = step_running [OF assms adv]
  from advance_cases [OF adv]
  consider
    (a) fl' c where "st' = Running fl'" "es = [Ret None, Call c]"
      "inflight_history att (units s ! i) fl' = inflight_history att (units s ! i) fl @ es"
  | (b) e where "st' = Failed fl e" "es = [Ret (Some e), Done (Some e)]"
  | (c) a st mt url where "fl = Storing a st mt" "st' = Committed a st mt url"
      "es = [Ret None, WriteModel, Done None]"
    by blast
  then show thesis
  proof cases
    case a
    show thesis
      by (rule Next [of fl' c w']) (use st a in \<open>simp_all add: Let_def\<close>)
  next
    case b
    show thesis
      by (rule Fail [of e w']) (use st b in \<open>simp add: Let_def\<close>)
  next
    case c
    show thesis
      by (rule Commit [of a st mt url w']) (use st c in \<open>simp_all add: Let_def\<close>)
  qed
qed

lemma proj_append: "proj k (tr @ tr') = proj k tr @ proj k tr'"
  by (induction k tr rule: proj.induct) simp_all


lemma proj_map_UnitEv: "proj k (map (UnitEv i) es) = (if k = i then es else [])"
  by (induction es) auto

lemma remaining_running: "0 < remaining (Running fl)"
  by (cases fl) simp_all

lemma step_effect:
  assumes "i < length (units s)" "u_stage (units s ! i) = Running fl"
  obtains st' es where
    "units (step env sp cfg att i s) = (units s)[i := (units s ! i)\<lparr>u_stage := st'\<rparr>]"
    "trace (step env sp cfg att i s) = trace s @ map (UnitEv i) es"
    "history att ((units s ! i)\<lparr>u_stage := st'\<rparr>) = history att (units s ! i) @ es"
    "st' \<noteq> Pending"
    "remaining st' < remaining (Running fl)"
    "model (step env sp cfg att i s) =
       (case st' of
          Committed a st mt u' \<Rightarrow>
            (model s)(u_name (units s ! i) := commit att a st mt u' (model s (u_name (units s ! i))))
        | _ \<Rightarrow> model s)"
    "total (step env sp cfg att i s) = total s"
    "completed (step env sp cfg att i s) =
       (if is_committed st' then Suc (completed s) else completed s)"
    "calls (step env sp cfg att i s) =
       (if calls s \<noteq> [] then calls s
        else if is_failed st' then [stage_error st']
        else if is_committed st' \<and> Suc (completed s) = total s then [None]
        else [])"
    "first_error (map (UnitEv i) es) = stage_error st'"
    "uncaught (step env sp cfg att i s) = uncaught s"
  using assms
proof (cases rule: step_cases [where env = env and sp = sp and cfg = cfg and att = att])
  case (Next fl' c w')
  have rem: "remaining (Running fl') < remaining (Running fl)"
    using Next(2) by (cases fl; cases fl') (simp_all add: inflight_history_def)
  show ?thesis
    by (rule that [of "Running fl'" "[Ret None, Call c]"])
       (use Next rem assms in \<open>simp_all add: history_def stage_error_def\<close>)
next
  case (Fail e w')
  show ?thesis
    by (rule that [of "Failed fl e" "[Ret (Some e), Done (Some e)]"])
       (use Fail assms in \<open>simp_all add: history_def stage_error_def task_done_def once_callback_def remaining_running\<close>)
next
  case (Commit a st mt url w')
  show ?thesis
    by (rule that [of "Committed a st mt url" "[Ret None, WriteModel, Done None]"])
       (use Commit assms in \<open>simp_all add: history_def stage_error_def task_done_def once_callback_def Let_def remaining_running\<close>)
qed

lemma unit_traces_step:
  assumes "unit_traces att s"
  shows "unit_traces att (step env sp cfg att i s)"
proof (cases "i < length (units s) \<and> is_running (u_stage (units s ! i))")
  case False
  then show ?thesis using assms by (simp add: step_idle)
next
  case True
  then obtain fl where i: "i < length (units s)" and fl: "u_stage (units s ! i) = Running fl"
    by (cases "u_stage (units s ! i)") auto
  from i fl obtain st' es where
    u: "units (step env sp cfg att i s) = (units s)[i := (units s ! i)\<lparr>u_stage := st'\<rparr>]"
    and t: "trace (step env sp cfg att i s) = trace s @ map (UnitEv i) es"
    and h: "history att ((units s ! i)\<lparr>u_stage := st'\<rparr>) = history att (units s ! i) @ es"
    by (rule step_effect [where env = env and sp = sp and cfg = cfg and att = att])
  show ?thesis
    unfolding unit_traces_def
  proof (intro allI impI)
    fix k assume "k < length (units (step env sp cfg att i s))"
    then have k: "k < length (units s)" by (simp add: u)
    with assms have old: "proj k (trace s) = history att (units s ! k)"
      by (simp add: unit_traces_def)
    show "proj k (trace (step env sp cfg att i s)) = history att (units (step env sp cfg att i s) ! k)"
      using old h k by (cases "k = i") (simp_all add: u t proj_append proj_map_UnitEv)
  qed
qed





lemma map_u_name_step: "map u_name (units (step env sp cfg att i s)) = map u_name (units s)"
proof -
  have "map (fst \<circ> static) (units (step env sp cfg att i s)) = map (fst \<circ> static) (units s)"
    using step_static [of env sp cfg att i s] by (metis map_map)
  then show ?thesis by (simp add: static_def comp_def)
qed

lemma model_inv_step:
  assumes "model_inv att m0 s" "distinct (map u_name (units s))"
  shows "model_inv att m0 (step env sp cfg att i s)"
proof (cases "i < length (units s) \<and> is_running (u_stage (units s ! i))")
  case False
  then show ?thesis using assms by (simp add: step_idle)
next
  case True
  then obtain fl where i: "i < length (units s)" and fl: "u_stage (units s ! i) = Running fl"
    by (cases "u_stage (units s ! i)") auto
  let ?s' = "step env sp cfg att i s"
  from i fl obtain st' es where
    u: "units ?s' = (units s)[i := (units s ! i)\<lparr>u_stage := st'\<rparr>]"
    and m: "model ?s' =
       (case st' of
          Committed a st mt u' \<Rightarrow>
            (model s)(u_name (units s ! i) := commit att a st mt u' (model s (u_name (units s ! i))))
        | _ \<Rightarrow> model s)"
    by (rule step_effect [where env = env and sp = sp and cfg = cfg and att = att])
  have names: "map u_name (units ?s') = map u_name (units s)" by (rule map_u_name_step)
  from assms(1) have old: "\<And>k. k < length (units s) \<Longrightarrow>
      model s (u_name (units s ! k)) = expected_sub att m0 (units s ! k)"
    and out: "\<And>n. n \<notin> set (map u_name (units s)) \<Longrightarrow> model s n = m0 n"
    by (simp_all add: model_inv_def)
  have oi: "model s (u_name (units s ! i)) = m0 (u_name (units s ! i))"
    using old [OF i] by (simp add: expected_sub_def fl)
  have ne: "u_name (units s ! k) \<noteq> u_name (units s ! i)" if "k < length (units s)" "k \<noteq> i" for k
    using assms(2) that i by (simp add: distinct_conv_nth)
  have ini: "u_name (units s ! i) \<in> set (map u_name (units s))" using i by simp
  show ?thesis
    unfolding model_inv_def names
  proof (intro conjI allI impI)
    fix k assume "k < length (units ?s')"
    then have k: "k < length (units s)" by (simp add: u)
    show "model ?s' (u_name (units ?s' ! k)) = expected_sub att m0 (units ?s' ! k)"
    proof (cases "k = i")
      case True
      then show ?thesis using i oi by (cases st') (simp_all add: u m expected_sub_def)
    next
      case False
      with ne [OF k] old [OF k] k show ?thesis
        by (cases st') (simp_all add: u m expected_sub_def)
    qed
  next
    fix n assume n: "n \<notin> set (map u_name (units s))"
    with ini have "n \<noteq> u_name (units s ! i)" by blast
    with out [OF n] show "model ?s' n = m0 n" by (cases st') (simp_all add: m)
  qed
qed

lemma run_Nil [simp]: "run env sp cfg att [] s = s"
  by (simp add: run_def)

lemma run_Cons [simp]:
  "run env sp cfg att (i # sch) s = run env sp cfg att sch (step env sp cfg att i s)"
  by (simp add: run_def)

lemma run_idle:
  "\<forall>u \<in> set (units s). \<not> is_running (u_stage u) \<Longrightarrow> run env sp cfg att sch s = s"
proof (induction sch)
  case Nil
  then show ?case by simp
next
  case (Cons i sch)
  from Cons.prems have "step env sp cfg att i s = s"
    by (intro step_idle) auto
  with Cons show ?case by simp
qed

lemma unit_traces_run: "unit_traces att s \<Longrightarrow> unit_traces att (run env sp cfg att sch s)"
  by (induction sch arbitrary: s) (simp_all add: unit_traces_step)


lemma model_inv_run:
  "model_inv att m0 s \<Longrightarrow> distinct (map u_name (units s)) \<Longrightarrow>
   model_inv att m0 (run env sp cfg att sch s)"
  by (induction sch arbitrary: s) (simp_all add: model_inv_step map_u_name_step)








lemma setUpTasks_pending:
  "setUpTasks env cfg att ts tasks g = (err, tasks', g') \<Longrightarrow>
   \<forall>u \<in> set tasks. u_stage u = Pending \<Longrightarrow> \<forall>u \<in> set tasks'. u_stage u = Pending"
proof (induction ts arbitrary: tasks g)
  case Nil
  then show ?case by simp
next
  case (Cons nt rest)
  show ?case
  proof (cases "extension_of env att (snd nt)")
    case (Inl e)
    with Cons.prems show ?thesis by simp
  next
    case (Inr e)
    obtain r g1 where rs: "randomString 20 g = (r, g1)" by (cases "randomString 20 g")
    let ?u = "\<lparr>u_name = fst nt, u_transform = snd nt,
               u_outputFile = path_join env (tmpDir cfg) (r @ e), u_stage = Pending\<rparr>"
    from Cons.prems(2) have all: "\<forall>u \<in> set (tasks @ [?u]). u_stage u = Pending" by simp
    from Cons.prems(1) Inr rs
    have "setUpTasks env cfg att rest (tasks @ [?u]) g1 = (err, tasks', g')" by simp
    from Cons.IH [OF this all] show ?thesis .
  qed
qed

lemma setUpTasks_prefix:
  "setUpTasks env cfg att ts tasks g = (err, tasks', g') \<Longrightarrow>
   \<exists>k. map entry tasks' = map entry tasks @ take k ts"
proof (induction ts arbitrary: tasks g)
  case Nil
  then show ?case by simp
next
  case (Cons nt rest)
  show ?case
  proof (cases "extension_of env att (snd nt)")
    case (Inl e)
    with Cons.prems have "map entry tasks' = map entry tasks @ take 0 (nt # rest)" by simp
    then show ?thesis by blast
  next
    case (Inr e)
    obtain r g1 where rs: "randomString 20 g = (r, g1)" by (cases "randomString 20 g")
    let ?u = "\<lparr>u_name = fst nt, u_transform = snd nt,
               u_outputFile = path_join env (tmpDir cfg) (r @ e), u_stage = Pending\<rparr>"
    from Cons.prems Inr rs
    have "setUpTasks env cfg att rest (tasks @ [?u]) g1 = (err, tasks', g')" by simp
    from Cons.IH [OF this] obtain k where
      "map entry tasks' = map entry (tasks @ [?u]) @ take k rest" by blast
    then have "map entry tasks' = map entry tasks @ take (Suc k) (nt # rest)"
      by (simp add: entry_def)
    then show ?thesis by blast
  qed
qed


lemma process_identify_error:
  "gm_identify env (imageMagick cfg) (att_path att) w = (Inl e, w1) \<Longrightarrow>
   process env cfg att m g w = (initial w1 att m)\<lparr>calls := [Some e]\<rparr>"
  by (simp add: process_def initial_def)

lemma process_unsupported:
  "gm_identify env (imageMagick cfg) (att_path att) w = (Inr a, w1) \<Longrightarrow>
   attr_format a \<notin> set (formats cfg) \<Longrightarrow>
   process env cfg att m g w = (initial w1 att m)\<lparr>calls := [Some not_an_image]\<rparr>"
  by (simp add: process_def initial_def)

lemma process_thrown:
  "gm_identify env (imageMagick cfg) (att_path att) w = (Inr a, w1) \<Longrightarrow>
   attr_format a \<in> set (formats cfg) \<Longrightarrow>
   setUpTasks env cfg att (transforms cfg) [] g = (Some e, tasks, g') \<Longrightarrow>
   process env cfg att m g w = (initial w1 att m)\<lparr>units := tasks, uncaught := Some e\<rparr>"
  by (simp add: process_def initial_def)

lemma process_started:
  "gm_identify env (imageMagick cfg) (att_path att) w = (Inr a, w1) \<Longrightarrow>
   attr_format a \<in> set (formats cfg) \<Longrightarrow>
   setUpTasks env cfg att (transforms cfg) [] g = (None, tasks, g') \<Longrightarrow>
   process env cfg att m g w = parallel_start att ((initial w1 att m)\<lparr>units := tasks\<rparr>)"
  by (simp add: process_def initial_def)

lemma process_cases [case_names Error Unsupported Thrown Started]:
  obtains
    (Error) e w1 where
      "gm_identify env (imageMagick cfg) (att_path att) w = (Inl e, w1)"
      "process env cfg att m g w = (initial w1 att m)\<lparr>calls := [Some e]\<rparr>"
  | (Unsupported) a w1 where
      "gm_identify env (imageMagick cfg) (att_path att) w = (Inr a, w1)"
      "attr_format a \<notin> set (formats cfg)"
      "process env cfg att m g w = (initial w1 att m)\<lparr>calls := [Some not_an_image]\<rparr>"
  | (Thrown) a w1 e tasks g' where
      "gm_identify env (imageMagick cfg) (att_path att) w = (Inr a, w1)"
      "attr_format a \<in> set (formats cfg)"
      "setUpTasks env cfg att (transforms cfg) [] g = (Some e, tasks, g')"
      "process env cfg att m g w = (initial w1 att m)\<lparr>units := tasks, uncaught := Some e\<rparr>"
  | (Started) a w1 tasks g' where
      "gm_identify env (imageMagick cfg) (att_path att) w = (Inr a, w1)"
      "attr_format a \<in> set (formats cfg)"
      "setUpTasks env cfg att (transforms cfg) [] g = (None, tasks, g')"
      "process env cfg att m g w = parallel_start att ((initial w1 att m)\<lparr>units := tasks\<rparr>)"
proof -
  obtain r w1 where id: "gm_identify env (imageMagick cfg) (att_path att) w = (r, w1)"
    by (cases "gm_identify env (imageMagick cfg) (att_path att) w")
  obtain err tasks g' where su: "setUpTasks env cfg att (transforms cfg) [] g = (err, tasks, g')"
    by (cases "setUpTasks env cfg att (transforms cfg) [] g")
  show thesis
  proof (cases r)
    case (Inl e)
    with id show thesis by (intro Error [of e w1] process_identify_error) simp_all
  next
    case (Inr a)
    show thesis
    proof (cases "attr_format a \<in> set (formats cfg)")
      case False
      with id Inr show thesis by (intro Unsupported [of a w1] process_unsupported) simp_all
    next
      case True
      show thesis
      proof (cases err)
        case None
        with id Inr True su show thesis
          by (intro Started [of a w1 tasks g'] process_started) simp_all
      next
        case (Some e)
        with id Inr True su show thesis
          by (intro Thrown [of a w1 e tasks g'] process_thrown) simp_all
      qed
    qed
  qed
qed

lemma proj_enumerate:
  "proj k (map (\<lambda>iu. UnitEv (fst iu) (f (snd iu))) (enumerate n xs)) =
     (if n \<le> k \<and> k < n + length xs then [f (xs ! (k - n))] else [])"
proof (induction xs arbitrary: n)
  case Nil
  then show ?case by simp
next
  case (Cons x xs)
  show ?case using Cons.IH [of "Suc n"] by (auto simp: Suc_diff_le not_less_eq_eq)
qed



lemma call_convert_stage [simp]: "call_convert att (u\<lparr>u_stage := st\<rparr>) = call_convert att u"
  by (simp add: call_convert_def)

lemma parallel_start_unit_traces:
  assumes "trace s = [SourceIdentify p]"
  shows "unit_traces att (parallel_start att s)"
proof (cases "units s = []")
  case True
  then show ?thesis by (simp add: parallel_start_def unit_traces_def)
next
  case False
  then show ?thesis
    by (simp add: parallel_start_def unit_traces_def assms proj_append proj_enumerate
        history_def inflight_history_def)
qed


lemma parallel_start_model_inv:
  assumes "model s = m"
  shows "model_inv att m (parallel_start att s)"
proof (cases "units s = []")
  case True
  then show ?thesis by (simp add: parallel_start_def model_inv_def assms)
next
  case False
  then show ?thesis by (simp add: parallel_start_def model_inv_def assms expected_sub_def)
qed

lemma pending_unit_traces:
  assumes "trace s = [SourceIdentify p]" "\<forall>u \<in> set (units s). u_stage u = Pending"
  shows "unit_traces att s"
  using assms by (simp add: unit_traces_def history_def)

lemma pending_model_inv:
  assumes "model s = m" "\<forall>u \<in> set (units s). u_stage u = Pending"
  shows "model_inv att m s"
  using assms by (simp add: model_inv_def expected_sub_def)

lemma process_unit_traces: "unit_traces att (process env cfg att m g w)"
proof (cases rule: process_cases [of env cfg att w m g])
  case (Error e w1)
  then show ?thesis by (simp add: unit_traces_def initial_def)
next
  case (Unsupported a w1)
  then show ?thesis by (simp add: unit_traces_def initial_def)
next
  case (Thrown a w1 e tasks g')
  from setUpTasks_pending [OF Thrown(3)] have "\<forall>u \<in> set tasks. u_stage u = Pending" by simp
  then show ?thesis
    unfolding Thrown(4) by (intro pending_unit_traces [of _ "att_path att"]) (simp_all add: initial_def)
next
  case (Started a w1 tasks g')
  show ?thesis
    unfolding Started(4) by (rule parallel_start_unit_traces [of _ "att_path att"]) (simp add: initial_def)
qed

lemma process_model_inv: "model_inv att m (process env cfg att m g w)"
proof (cases rule: process_cases [of env cfg att w m g])
  case (Error e w1)
  then show ?thesis by (simp add: model_inv_def initial_def)
next
  case (Unsupported a w1)
  then show ?thesis by (simp add: model_inv_def initial_def)
next
  case (Thrown a w1 e tasks g')
  from setUpTasks_pending [OF Thrown(3)] have "\<forall>u \<in> set tasks. u_stage u = Pending" by simp
  then show ?thesis
    unfolding Thrown(4) by (intro pending_model_inv) (simp_all add: initial_def)
next
  case (Started a w1 tasks g')
  show ?thesis
    unfolding Started(4) by (rule parallel_start_model_inv) (simp add: initial_def)
qed

lemma map_u_name_entry: "map u_name us = map fst (map entry us)"
  by (simp add: entry_def comp_def)

lemma map_entry_static: "map entry us = map (\<lambda>t. (fst t, fst (snd t))) (map static us)"
  by (simp add: entry_def static_def comp_def)

lemma process_entries_prefix:
  "\<exists>k. map entry (units (process env cfg att m g w)) = take k (transforms cfg)"
proof (cases rule: process_cases [of env cfg att w m g])
  case (Error e w1)
  then have "map entry (units (process env cfg att m g w)) = take 0 (transforms cfg)"
    by (simp add: initial_def)
  then show ?thesis by blast
next
  case (Unsupported a w1)
  then have "map entry (units (process env cfg att m g w)) = take 0 (transforms cfg)"
    by (simp add: initial_def)
  then show ?thesis by blast
next
  case (Thrown a w1 e tasks g')
  from setUpTasks_prefix [OF Thrown(3)] show ?thesis by (simp add: Thrown(4))
next
  case (Started a w1 tasks g')
  have "map entry (units (process env cfg att m g w)) = map entry tasks"
    unfolding Started(4) map_entry_static parallel_start_static by simp
  with setUpTasks_prefix [OF Started(3)] show ?thesis by simp
qed

lemma process_distinct:
  assumes "distinct (map fst (transforms cfg))"
  shows "distinct (map u_name (units (process env cfg att m g w)))"
proof -
  from process_entries_prefix [of env cfg att m g w] obtain k where
    "map entry (units (process env cfg att m g w)) = take k (transforms cfg)" by blast
  then have "map u_name (units (process env cfg att m g w)) = take k (map fst (transforms cfg))"
    by (simp add: map_u_name_entry take_map)
  with assms show ?thesis by (simp add: distinct_take)
qed


lemma calls_of_inflight:
  "\<exists>n st mt. calls_of (inflight_history att u fl) = take n (stage_calls att u st mt)"
proof (cases fl)
  case Converting
  have "calls_of (inflight_history att u fl) = take 1 (stage_calls att u \<lparr>stat_size = 0\<rparr> [])"
    by (simp add: Converting calls_of_def inflight_history_def stage_calls_def call_convert_def)
  then show ?thesis by blast
next
  case Inspecting
  have "calls_of (inflight_history att u fl) = take 2 (stage_calls att u \<lparr>stat_size = 0\<rparr> [])"
    by (simp add: Inspecting calls_of_def inflight_history_def stage_calls_def call_convert_def)
  then show ?thesis by blast
next
  case (Stating a)
  have "calls_of (inflight_history att u fl) = take 3 (stage_calls att u \<lparr>stat_size = 0\<rparr> [])"
    by (simp add: Stating calls_of_def inflight_history_def stage_calls_def call_convert_def)
  then show ?thesis by blast
next
  case (Sniffing a st)
  have "calls_of (inflight_history att u fl) = take 4 (stage_calls att u st [])"
    by (simp add: Sniffing calls_of_def inflight_history_def stage_calls_def call_convert_def)
  then show ?thesis by blast
next
  case (Storing a st mt)
  have "calls_of (inflight_history att u fl) = take 5 (stage_calls att u st mt)"
    by (simp add: Storing calls_of_def inflight_history_def stage_calls_def call_convert_def
        save_blob_def)
  then show ?thesis by blast
qed

lemma calls_of_append: "calls_of (h @ h') = calls_of h @ calls_of h'"
  by (simp add: calls_of_def)

lemma calls_of_history:
  "\<exists>n st mt. calls_of (history att u) = take n (stage_calls att u st mt)"
proof (cases "u_stage u")
  case Pending
  have "calls_of (history att u) = take 0 (stage_calls att u \<lparr>stat_size = 0\<rparr> [])"
    by (simp add: Pending history_def calls_of_def)
  then show ?thesis by blast
next
  case (Running fl)
  with calls_of_inflight [of att u fl] show ?thesis by (simp add: history_def)
next
  case (Committed a st mt u')
  with calls_of_inflight [of att u "Storing a st mt"] show ?thesis
    by (simp add: history_def calls_of_append) (simp add: calls_of_def)
next
  case (Failed fl e)
  with calls_of_inflight [of att u fl] show ?thesis
    by (simp add: history_def calls_of_append) (simp add: calls_of_def)
qed

lemma successes_history: "(successes (history att u) = 5) = is_committed (u_stage u)"
proof (cases "u_stage u")
  case Pending
  then show ?thesis by (simp add: history_def successes_def)
next
  case (Running fl)
  then show ?thesis
    by (cases fl) (simp_all add: history_def successes_def inflight_history_def call_convert_def)
next
  case (Committed a st mt u')
  then show ?thesis
    by (simp add: history_def successes_def inflight_history_def call_convert_def)
next
  case (Failed fl e)
  then show ?thesis
    by (cases fl) (simp_all add: history_def successes_def inflight_history_def call_convert_def)
qed

lemma write_history: "(WriteModel \<in> set (history att u)) = is_committed (u_stage u)"
proof (cases "u_stage u")
  case Pending
  then show ?thesis by (simp add: history_def)
next
  case (Running fl)
  then show ?thesis
    by (cases fl) (simp_all add: history_def inflight_history_def call_convert_def)
next
  case (Committed a st mt u')
  then show ?thesis
    by (simp add: history_def inflight_history_def call_convert_def)
next
  case (Failed fl e)
  then show ?thesis
    by (cases fl) (simp_all add: history_def inflight_history_def call_convert_def)
qed





section \<open>Properties of process\<close>

text \<open>
  Claim C1, as the code has it. When the identification of the attachment fails,
  \<open>process\<close> calls back with the error of the engine itself; when the identified format
  is not among \<open>this._options.formats\<close>, it calls back with
  \<open>Error('File was not an image')\<close>. In both cases, whatever is scheduled afterwards, no
  task exists, \<open>storageProvider.save\<close> is never called and the model is as it was.
\<close>

theorem process_rejects:
  assumes "gm_identify env (imageMagick cfg) (att_path att) w = (r, w1)"
    and "case r of Inl e \<Rightarrow> True | Inr a \<Rightarrow> attr_format a \<notin> set (formats cfg)"
    and "s = run env sp cfg att sch (process env cfg att m g w)"
  shows "calls s = [Some (case r of Inl e \<Rightarrow> e | Inr a \<Rightarrow> Error ''File was not an image'')]
       \<and> units s = []
       \<and> filter is_save (trace s) = []
       \<and> model s = m"
proof -
  let ?p = "process env cfg att m g w"
  have p: "?p = (initial w1 att m)
                  \<lparr>calls := [Some (case r of Inl e \<Rightarrow> e | Inr a \<Rightarrow> not_an_image)]\<rparr>"
  proof (cases r)
    case (Inl e)
    with assms(1) show ?thesis by (simp add: process_identify_error)
  next
    case (Inr a)
    with assms(1,2) show ?thesis by (simp add: process_unsupported)
  qed
  have "units ?p = []" by (simp add: p initial_def)
  then have "run env sp cfg att sch ?p = ?p" by (intro run_idle) simp
  with assms(3) have "s = ?p" by simp
  then show ?thesis by (simp add: p initial_def not_an_image_def split: sum.split)
qed

text \<open>
  Claim C5. Whatever the schedule, the events of task \<open>i\<close> are the history of its stage:
  the calls \<open>convert\<close>, \<open>identify\<close>, \<open>stat\<close>, \<open>detectFile\<close>, \<open>save\<close> in this order, each
  issued when the one before has returned without an error and each on the output file
  of \<open>convert\<close>, then the write to the model and the callback. So the operations it has
  called are an initial part of the five. For a failed task the events are the calls up
  to the operation that returned the error, that error, and the callback with it. A task
  that is no longer in flight does nothing more.
\<close>

theorem unit_stage_order:
  assumes "s = run env sp cfg att sch (process env cfg att m g w)"
    and "i < length (units s)"
  shows "proj i (trace s) = history att (units s ! i)
       \<and> (\<exists>n st mimeType.
            calls_of (proj i (trace s)) = take n (stage_calls att (units s ! i) st mimeType))
       \<and> (\<forall>fl e. u_stage (units s ! i) = Failed fl e \<longrightarrow>
            proj i (trace s) = inflight_history att (units s ! i) fl @ [Ret (Some e), Done (Some e)])
       \<and> (\<not> is_running (u_stage (units s ! i)) \<longrightarrow> step env sp cfg att i s = s)"
proof -
  have "unit_traces att s"
    unfolding assms(1) using process_unit_traces by (rule unit_traces_run)
  with assms(2) have h: "proj i (trace s) = history att (units s ! i)"
    by (simp add: unit_traces_def)
  have f: "\<forall>fl e. u_stage (units s ! i) = Failed fl e \<longrightarrow>
      history att (units s ! i) = inflight_history att (units s ! i) fl @ [Ret (Some e), Done (Some e)]"
    by (simp add: history_def)
  from h f calls_of_history [of att "units s ! i"] show ?thesis
    by (simp add: step_idle)
qed

text \<open>
  Claim C2. For transform names that are pairwise distinct, and whatever the schedule:
  the model is written by task \<open>i\<close> exactly when its five operations have all returned
  without an error, which is when the task is committed; the sub-record of a committed
  task is the one \<open>process\<close> was called with, with the eight fields \<open>format\<close>, \<open>depth\<close>,
  \<open>width\<close>, \<open>height\<close>, \<open>size\<close>, \<open>url\<close>, \<open>name\<close>, \<open>type\<close> set; the sub-record of any
  other task is untouched.
\<close>

theorem commit_all_or_nothing:
  assumes "s = run env sp cfg att sch (process env cfg att m g w)"
    and "distinct (map fst (transforms cfg))"
    and "i < length (units s)"
    and "u = units s ! i"
  shows "(successes (proj i (trace s)) = 5) = is_committed (u_stage u)
       \<and> (WriteModel \<in> set (proj i (trace s))) = is_committed (u_stage u)
       \<and> (\<forall>a st mimeType link. u_stage u = Committed a st mimeType link \<longrightarrow>
            model s (u_name u) =
              (m (u_name u))
                \<lparr>format := Some (attr_format a), depth := Some (attr_depth a),
                 width := Some (attr_width a), height := Some (attr_height a),
                 size_f := Some (stat_size st), url := Some link,
                 name := Some (att_name att), type_f := Some mimeType\<rparr>)
       \<and> (\<not> is_committed (u_stage u) \<longrightarrow> model s (u_name u) = m (u_name u))"
proof -
  let ?p = "process env cfg att m g w"
  have tr: "unit_traces att s"
    unfolding assms(1) using process_unit_traces by (rule unit_traces_run)
  have "model_inv att m s"
    unfolding assms(1) using process_model_inv process_distinct [OF assms(2)]
    by (rule model_inv_run)
  with assms(3,4) have mo: "model s (u_name u) = expected_sub att m u"
    by (simp add: model_inv_def)
  from tr assms(3,4) have h: "proj i (trace s) = history att u" by (simp add: unit_traces_def)
  have sub: "\<not> is_committed (u_stage u) \<Longrightarrow> expected_sub att m u = m (u_name u)"
    by (cases "u_stage u") (simp_all add: expected_sub_def)
  have com: "u_stage u = Committed a st mimeType link \<Longrightarrow>
      expected_sub att m u = commit att a st mimeType link (m (u_name u))" for a st mimeType link
    by (simp add: expected_sub_def)
  show ?thesis
    unfolding h mo
    by (auto simp: successes_history write_history commit_def sub com)
qed


text \<open>
  An attachment identified as BMP is rejected under the default formats.
\<close>

theorem process_rejects_witness:
  "(case fst (gm_identify ex_env (imageMagick ex_two) (att_path (ex_att ''/up/a.bmp'')) 0) of
      Inl e \<Rightarrow> True | Inr a \<Rightarrow> attr_format a \<notin> set (formats ex_two))
   \<and> calls (run ex_env ex_sp ex_two (ex_att ''/up/a.bmp'') [0, 1, 0]
              (process ex_env ex_two (ex_att ''/up/a.bmp'') ex_model ex_rng 0))
       = [Some (Error ''File was not an image'')]
   \<and> units (run ex_env ex_sp ex_two (ex_att ''/up/a.bmp'') [0, 1, 0]
              (process ex_env ex_two (ex_att ''/up/a.bmp'') ex_model ex_rng 0)) = []"
proof -
  let ?a = "\<lparr>attr_format = ''BMP'', attr_depth = 8, attr_width = 640, attr_height = 480\<rparr>"
  have id: "gm_identify ex_env (imageMagick ex_two) (att_path (ex_att ''/up/a.bmp'')) 0
              = (Inr ?a, Suc 0)"
    by (simp add: ex_env_def ex_att_def)
  have un: "case Inr ?a of Inl e \<Rightarrow> True | Inr a \<Rightarrow> attr_format a \<notin> set (formats ex_two)"
    by (simp add: ex_two_def ex_config_def)
  have "fst (gm_identify ex_env (imageMagick ex_two) (att_path (ex_att ''/up/a.bmp'')) 0) = Inr ?a"
    by (simp only: id fst_conv)
  moreover note un
  moreover have "calls (run ex_env ex_sp ex_two (ex_att ''/up/a.bmp'') [0, 1, 0]
              (process ex_env ex_two (ex_att ''/up/a.bmp'') ex_model ex_rng 0))
       = [Some (Error ''File was not an image'')]
   \<and> units (run ex_env ex_sp ex_two (ex_att ''/up/a.bmp'') [0, 1, 0]
              (process ex_env ex_two (ex_att ''/up/a.bmp'') ex_model ex_rng 0)) = []"
    using process_rejects [OF id un refl, of ex_sp "[0, 1, 0]" ex_model ex_rng]
    by (simp only: sum.case)
  ultimately show ?thesis by (simp only:)
qed

text \<open>
  The claim as it is worded has the error of a failed identification be the unsupported
  file type error. The engine's own error is what the callback receives.
\<close>

theorem process_identify_error_counterexample:
  "fst (gm_identify ex_env (imageMagick ex_two) (att_path (ex_att ''/up/broken'')) 0)
     = Inl (Error ''identify failed'')
   \<and> calls (process ex_env ex_two (ex_att ''/up/broken'') ex_model ex_rng 0)
     = [Some (Error ''identify failed'')]
   \<and> Error ''identify failed'' \<noteq> Error ''File was not an image''"
  by code_simp

text \<open>
  A task whose \<open>save\<close> fails: five calls in order, the error, the callback with it.
\<close>

theorem unit_stage_order_witness:
  "1 < length (units (run ex_env ex_sp ex_two (ex_att ''/up/a.png'') [1, 0, 1, 1, 1, 1, 0]
                       (process ex_env ex_two (ex_att ''/up/a.png'') ex_model ex_rng 0)))
   \<and> proj 1 (trace (run ex_env ex_sp ex_two (ex_att ''/up/a.png'') [1, 0, 1, 1, 1, 1, 0]
                       (process ex_env ex_two (ex_att ''/up/a.png'') ex_model ex_rng 0)))
     = [Call (Convert ''/up/a.png'' [] ''/tmp/00000000000000000000.fail''), Ret None,
        Call (Identify ''/tmp/00000000000000000000.fail''), Ret None,
        Call (Stat ''/tmp/00000000000000000000.fail''), Ret None,
        Call (DetectFile ''/tmp/00000000000000000000.fail''), Ret None,
        Call (Save \<lparr>blob_path = ''/tmp/00000000000000000000.fail'', blob_size = 1024,
                    blob_type = ''image/png''\<rparr>),
        Ret (Some (Error ''storage full'')), Done (Some (Error ''storage full''))]"
proof -
  let ?s = "run ex_env ex_sp ex_two (ex_att ''/up/a.png'') [1, 0, 1, 1, 1, 1, 0]
              (process ex_env ex_two (ex_att ''/up/a.png'') ex_model ex_rng 0)"
  have len: "1 < length (units ?s)" by code_simp
  have h: "history (ex_att ''/up/a.png'') (units ?s ! 1)
     = [Call (Convert ''/up/a.png'' [] ''/tmp/00000000000000000000.fail''), Ret None,
        Call (Identify ''/tmp/00000000000000000000.fail''), Ret None,
        Call (Stat ''/tmp/00000000000000000000.fail''), Ret None,
        Call (DetectFile ''/tmp/00000000000000000000.fail''), Ret None,
        Call (Save \<lparr>blob_path = ''/tmp/00000000000000000000.fail'', blob_size = 1024,
                    blob_type = ''image/png''\<rparr>),
        Ret (Some (Error ''storage full'')), Done (Some (Error ''storage full''))]"
    by code_simp
  have "proj 1 (trace ?s) = history (ex_att ''/up/a.png'') (units ?s ! 1)"
    using unit_stage_order [OF refl len] by (rule conjunct1)
  from len this [unfolded h] show ?thesis by (rule conjI)
qed


text \<open>
  Two tasks run to the end in an interleaved order; the first one commits.
\<close>

theorem commit_all_or_nothing_witness:
  "distinct (map fst (transforms ex_two))
   \<and> 0 < length (units (run ex_env ex_sp ex_two (ex_att ''/up/a.png'') [1, 0, 1, 0, 0, 1, 1, 0, 0, 1]
                       (process ex_env ex_two (ex_att ''/up/a.png'') ex_model ex_rng 0)))
   \<and> successes (proj 0 (trace (run ex_env ex_sp ex_two (ex_att ''/up/a.png'')
                                  [1, 0, 1, 0, 0, 1, 1, 0, 0, 1]
                       (process ex_env ex_two (ex_att ''/up/a.png'') ex_model ex_rng 0)))) = 5
   \<and> model (run ex_env ex_sp ex_two (ex_att ''/up/a.png'') [1, 0, 1, 0, 0, 1, 1, 0, 0, 1]
                       (process ex_env ex_two (ex_att ''/up/a.png'') ex_model ex_rng 0)) ''thumb''
     = \<lparr>format = Some ''PNG'', depth = Some 8, width = Some 640, height = Some 480,
        size_f = Some 1024, url = Some ''http://store/tmp/00000000000000000000.jpg'',
        name = Some ''upload'', type_f = Some ''image/png''\<rparr>"
proof -
  let ?s = "run ex_env ex_sp ex_two (ex_att ''/up/a.png'') [1, 0, 1, 0, 0, 1, 1, 0, 0, 1]
              (process ex_env ex_two (ex_att ''/up/a.png'') ex_model ex_rng 0)"
  let ?a = "\<lparr>attr_format = ''PNG'', attr_depth = 8, attr_width = 640, attr_height = 480\<rparr>"
  have d: "distinct (map fst (transforms ex_two))" by code_simp
  have len: "0 < length (units ?s)" by code_simp
  have st: "u_stage (units ?s ! 0)
      = Committed ?a \<lparr>stat_size = 1024\<rparr> ''image/png'' ''http://store/tmp/00000000000000000000.jpg''"
    by code_simp
  have nm: "u_name (units ?s ! 0) = ''thumb''" by code_simp
  have m0: "ex_model ''thumb'' = \<lparr>format = None, depth = None, width = None, height = None,
      size_f = None, url = None, name = None, type_f = None\<rparr>"
    by (simp add: ex_model_def)
  note t = commit_all_or_nothing [OF refl d len refl]
  have c: "is_committed (u_stage (units ?s ! 0))" by (simp only: st is_committed.simps)
  from t c have s5: "successes (proj 0 (trace ?s)) = 5" by (simp only:)
  from t st have "model ?s (u_name (units ?s ! 0)) =
      (ex_model (u_name (units ?s ! 0)))
        \<lparr>format := Some (attr_format ?a), depth := Some (attr_depth ?a),
         width := Some (attr_width ?a), height := Some (attr_height ?a),
         size_f := Some (stat_size \<lparr>stat_size = 1024\<rparr>),
         url := Some ''http://store/tmp/00000000000000000000.jpg'',
         name := Some (att_name (ex_att ''/up/a.png'')), type_f := Some ''image/png''\<rparr>"
    by blast
  then have mo: "model ?s ''thumb'' = \<lparr>format = Some ''PNG'', depth = Some 8, width = Some 640,
        height = Some 480, size_f = Some 1024,
        url = Some ''http://store/tmp/00000000000000000000.jpg'',
        name = Some ''upload'', type_f = Some ''image/png''\<rparr>"
    unfolding nm m0 by (simp add: ex_att_def)
  from d len s5 mo show ?thesis by (intro conjI)
qed


section \<open>Properties of remove\<close>

lemma fold_removal_names:
  "fold (\<lambda>nt tasks. if \<not> P (fst nt) then tasks else tasks @ [fst nt]) ts acc
     = acc @ filter P (map fst ts)"
  by (induction ts arbitrary: acc) simp_all

lemma removal_names_filter:
  "removal_names cfg m = filter (\<lambda>n. truthy (url (m n))) (map fst (transforms cfg))"
  using fold_removal_names [of "\<lambda>n. truthy (url (m n))" "transforms cfg" "[]"]
  by (simp add: removal_names_def)

lemma remove_calls_append: "remove_calls (tr @ tr') = remove_calls tr @ remove_calls tr'"
  by (simp add: remove_calls_def)

lemma remove_calls_issued:
  "remove_calls (map (\<lambda>iu. UnitEv (fst iu) (Call (Remove (snd iu) (m (snd iu))))) (enumerate k names))
     = map (\<lambda>n. (n, m n)) names"
  by (induction names arbitrary: k) (simp_all add: remove_calls_def)

lemma remove_calls_remove:
  "remove_calls (trace (remove cfg m w)) = map (\<lambda>n. (n, m n)) (removal_names cfg m)"
  by (simp add: remove_def Let_def remove_calls_issued) (simp add: remove_calls_def once_callback_def)

lemma remove_step_calls: "remove_calls (trace (remove_step sp m i s)) = remove_calls (trace s)"
  by (auto simp: remove_step_def remove_calls_append split: prod.splits rstage.splits)
     (simp add: remove_calls_def)

lemma remove_run_calls: "remove_calls (trace (remove_run sp m sch s)) = remove_calls (trace s)"
  unfolding remove_run_def by (induction sch arbitrary: s) (simp_all add: remove_step_calls)

lemma remove_step_no_tasks: "r_tasks s = [] \<Longrightarrow> remove_step sp m i s = s"
  by (simp add: remove_step_def)

lemma remove_run_no_tasks: "r_tasks s = [] \<Longrightarrow> remove_run sp m sch s = s"
  unfolding remove_run_def by (induction sch) (simp_all add: remove_step_no_tasks)

lemma count_list_filter_distinct:
  "distinct xs \<Longrightarrow> count_list (filter P xs) x = (if x \<in> set xs \<and> P x then 1 else 0)"
  by (induction xs) auto

text \<open>
  Claim C6. For transform names that are pairwise distinct, and whatever the order in
  which the provider calls back: the calls of \<open>storageProvider.remove\<close> are one per
  configured name whose sub-record has a non-empty url, in configuration order, each with
  that sub-record; a name is passed once if its sub-record has a non-empty url and never
  otherwise. When no sub-record has a url, \<open>remove\<close> calls back without an error and has
  called nothing.
\<close>

theorem remove_calls_once:
  assumes "s = remove_run sp m sch (remove cfg m w)"
    and "distinct (map fst (transforms cfg))"
  shows "remove_calls (trace s)
           = map (\<lambda>n. (n, m n)) (filter (\<lambda>n. truthy (url (m n))) (map fst (transforms cfg)))
       \<and> (\<forall>n. count_list (map fst (remove_calls (trace s))) n
               = (if n \<in> set (map fst (transforms cfg)) \<and> truthy (url (m n)) then 1 else 0))
       \<and> ((\<forall>n \<in> set (map fst (transforms cfg)). \<not> truthy (url (m n)))
            \<longrightarrow> calls s = [None] \<and> remove_calls (trace s) = [] \<and> world s = w)"
proof -
  let ?names = "filter (\<lambda>n. truthy (url (m n))) (map fst (transforms cfg))"
  have rc: "remove_calls (trace s) = map (\<lambda>n. (n, m n)) ?names"
    unfolding assms(1) by (simp add: remove_run_calls remove_calls_remove removal_names_filter)
  have "map fst (remove_calls (trace s)) = ?names"
    unfolding rc by (simp add: comp_def)
  then have cnt: "\<forall>n. count_list (map fst (remove_calls (trace s))) n
               = (if n \<in> set (map fst (transforms cfg)) \<and> truthy (url (m n)) then 1 else 0)"
    using count_list_filter_distinct [OF assms(2)] by simp
  have none: "calls s = [None] \<and> remove_calls (trace s) = [] \<and> world s = w"
    if "\<forall>n \<in> set (map fst (transforms cfg)). \<not> truthy (url (m n))"
  proof -
    from that have e: "removal_names cfg m = []" by (simp add: removal_names_filter)
    then have r: "remove cfg m w =
        \<lparr>world = w, trace = [], total = 0, completed = 0, calls = [None], r_tasks = []\<rparr>"
      by (simp add: remove_def once_callback_def)
    then have "s = remove cfg m w" unfolding assms(1) by (intro remove_run_no_tasks) simp
    with r show ?thesis by (simp add: remove_calls_def)
  qed
  from rc cnt none show ?thesis by blast
qed

text \<open>
  One of two sub-records has a url: one call. No sub-record has a url: none, and success.
\<close>

theorem remove_calls_once_witness:
  "distinct (map fst (transforms ex_two))
   \<and> remove_calls (trace (remove_run ex_sp ex_model_thumb [1, 0] (remove ex_two ex_model_thumb 0)))
     = [(''thumb'', ex_model_thumb ''thumb'')]
   \<and> count_list (map fst (remove_calls
        (trace (remove_run ex_sp ex_model_thumb [1, 0] (remove ex_two ex_model_thumb 0))))) ''thumb'' = 1
   \<and> count_list (map fst (remove_calls
        (trace (remove_run ex_sp ex_model_thumb [1, 0] (remove ex_two ex_model_thumb 0))))) ''archive'' = 0
   \<and> calls (remove_run ex_sp ex_model [0] (remove ex_two ex_model 0)) = [None]
   \<and> remove_calls (trace (remove_run ex_sp ex_model [0] (remove ex_two ex_model 0))) = []"
proof -
  have d: "distinct (map fst (transforms ex_two))" by code_simp
  have names: "map fst (transforms ex_two) = [''thumb'', ''archive'']"
    by (simp add: ex_two_def ex_config_def)
  have t: "truthy (url (ex_model_thumb ''thumb''))" "\<not> truthy (url (ex_model_thumb ''archive''))"
    by (simp_all add: ex_model_thumb_def truthy_def)
  have n: "\<forall>n \<in> set (map fst (transforms ex_two)). \<not> truthy (url (ex_model n))"
    by (simp add: ex_model_def truthy_def)
  note a = remove_calls_once [OF refl d, of ex_sp ex_model_thumb "[1, 0]" 0]
  note b = remove_calls_once [OF refl d, of ex_sp ex_model "[0]" 0]
  from a have a1: "remove_calls (trace (remove_run ex_sp ex_model_thumb [1, 0] (remove ex_two ex_model_thumb 0)))
     = [(''thumb'', ex_model_thumb ''thumb'')]"
    by (simp add: names t)
  from a have a2: "count_list (map fst (remove_calls
        (trace (remove_run ex_sp ex_model_thumb [1, 0] (remove ex_two ex_model_thumb 0))))) ''thumb'' = 1"
    by (simp add: names t)
  from a have a3: "count_list (map fst (remove_calls
        (trace (remove_run ex_sp ex_model_thumb [1, 0] (remove ex_two ex_model_thumb 0))))) ''archive'' = 0"
    by (simp add: names t)
  from b n have b1: "calls (remove_run ex_sp ex_model [0] (remove ex_two ex_model 0)) = [None]"
    and b2: "remove_calls (trace (remove_run ex_sp ex_model [0] (remove ex_two ex_model 0))) = []"
    by blast+
  from d a1 a2 a3 b1 b2 show ?thesis by (intro conjI)
qed

section \<open>Properties of the constructor\<close>

lemma constructor_result:
  assumes "h r = Some opts" and "opt_transforms opts = Some ts"
  shows "\<exists>e w1. constructor env (Some r) h w =
           (case e of Some x \<Rightarrow> Inl x | None \<Rightarrow> Inr \<lparr>this_options = r\<rparr>,
            h(r \<mapsto> opts\<lparr>opt_tmpDir := (if truthy (opt_tmpDir opts) then opt_tmpDir opts
                                          else Some (os_tmpdir env)),
                         opt_formats := (case opt_formats opts of
                                           None \<Rightarrow> Some SUPPORTED_FORMATS
                                         | Some fs \<Rightarrow> Some fs)\<rparr>),
            w1)"
proof -
  let ?o = "opts\<lparr>opt_tmpDir := (if truthy (opt_tmpDir opts) then opt_tmpDir opts
                                  else Some (os_tmpdir env)),
                 opt_formats := (case opt_formats opts of
                                   None \<Rightarrow> Some SUPPORTED_FORMATS
                                 | Some fs \<Rightarrow> Some fs)\<rparr>"
  define o1 where "o1 = (if \<not> truthy (opt_tmpDir opts)
                         then opts\<lparr>opt_tmpDir := Some (os_tmpdir env)\<rparr> else opts)"
  define o2 where "o2 = (if opt_formats o1 = None
                         then o1\<lparr>opt_formats := Some SUPPORTED_FORMATS\<rparr> else o1)"
  have o2: "o2 = ?o"
    by (cases "opt_formats opts") (simp_all add: o1_def o2_def)
  have "\<exists>d. opt_tmpDir o2 = Some d"
    unfolding o2 by (cases "opt_tmpDir opts") (auto simp: truthy_def)
  then obtain d where d: "opt_tmpDir o2 = Some d" by blast
  obtain e w1 where mk: "mkdirp_sync env d w = (e, w1)" by (cases "mkdirp_sync env d w")
  have "constructor env (Some r) h w =
      (case opt_tmpDir o2 of
         None \<Rightarrow> (Inl (Error ''path must be a string''), h(r \<mapsto> o2), w)
       | Some d \<Rightarrow>
           (case mkdirp_sync env d w of
              (Some e, w') \<Rightarrow> (Inl e, h(r \<mapsto> o2), w')
            | (None, w') \<Rightarrow> (Inr \<lparr>this_options = r\<rparr>, h(r \<mapsto> o2), w')))"
    unfolding constructor_def o2_def o1_def by (simp add: assms Let_def)
  then have "constructor env (Some r) h w =
      (case e of Some x \<Rightarrow> Inl x | None \<Rightarrow> Inr \<lparr>this_options = r\<rparr>, h(r \<mapsto> o2), w1)"
    by (cases e) (simp_all add: d mk)
  then show ?thesis unfolding o2 by blast
qed

text \<open>
  After the constructor the options object holds everything the methods read: the
  transforms, a temporary directory and the formats, by default the four of
  \<open>SUPPORTED_FORMATS\<close>.
\<close>

lemma constructor_config:
  assumes "h r = Some opts" and "opt_transforms opts = Some ts"
    and "constructor env (Some r) h w = (res, h', w')"
  shows "\<exists>o'. h' r = Some o' \<and>
           config_of o' =
             Some \<lparr>transforms = ts,
                   tmpDir = (case opt_tmpDir opts of
                               Some d \<Rightarrow> if d \<noteq> [] then d else os_tmpdir env
                             | None \<Rightarrow> os_tmpdir env),
                   formats = (case opt_formats opts of
                                None \<Rightarrow> SUPPORTED_FORMATS
                              | Some fs \<Rightarrow> fs),
                   imageMagick = opt_imageMagick opts\<rparr>"
proof -
  from constructor_result [where h = h and r = r and opts = opts and ts = ts and env = env
      and w = w, OF assms(1,2)] assms(3)
  have "h' r = Some (opts\<lparr>opt_tmpDir := (if truthy (opt_tmpDir opts) then opt_tmpDir opts
                                          else Some (os_tmpdir env)),
                         opt_formats := (case opt_formats opts of
                                           None \<Rightarrow> Some SUPPORTED_FORMATS
                                         | Some fs \<Rightarrow> Some fs)\<rparr>)"
    by auto
  then show ?thesis
    by (cases "opt_tmpDir opts"; cases "opt_formats opts")
       (simp_all add: config_of_def assms(2) truthy_def)
qed

text \<open>
  Claim C9, as the code has it. For an options object that passes the two assertions,
  the instance holds the caller's reference, and after the constructor the object behind
  it has \<open>tmpDir\<close> set to the system temporary directory when it was absent or the empty
  string, and \<open>formats\<close> set to the default list when it was absent; this holds whether
  or not \<open>mkdirp.sync\<close> throws. No other object changes, and an options object with a
  non-empty \<open>tmpDir\<close> and with \<open>formats\<close> is left as it was.
\<close>

theorem constructor_options:
  assumes "h r = Some opts"
    and "opt_transforms opts = Some ts"
    and "constructor env (Some r) h w = (res, h', w')"
  shows "(\<forall>i. res = Inr i \<longrightarrow> this_options i = r)
       \<and> h' r = Some (opts\<lparr>opt_tmpDir := (if truthy (opt_tmpDir opts) then opt_tmpDir opts
                                            else Some (os_tmpdir env)),
                           opt_formats := (case opt_formats opts of
                                             None \<Rightarrow> Some [''JPEG'', ''PNG'', ''GIF'', ''TIFF'']
                                           | Some fs \<Rightarrow> Some fs)\<rparr>)
       \<and> (\<forall>r'. r' \<noteq> r \<longrightarrow> h' r' = h r')
       \<and> (truthy (opt_tmpDir opts) \<and> opt_formats opts \<noteq> None \<longrightarrow> h' = h)"
proof -
  let ?o = "opts\<lparr>opt_tmpDir := (if truthy (opt_tmpDir opts) then opt_tmpDir opts
                                  else Some (os_tmpdir env)),
                 opt_formats := (case opt_formats opts of
                                   None \<Rightarrow> Some SUPPORTED_FORMATS
                                 | Some fs \<Rightarrow> Some fs)\<rparr>"
  from constructor_result [where h = h and r = r and opts = opts and ts = ts and env = env
      and w = w, OF assms(1,2)] assms(3)
  obtain e where res: "res = (case e of Some x \<Rightarrow> Inl x | None \<Rightarrow> Inr \<lparr>this_options = r\<rparr>)"
    and h': "h' = h(r \<mapsto> ?o)" by auto
  have same: "?o = opts" if "truthy (opt_tmpDir opts)" "opt_formats opts \<noteq> None"
    using that by (cases "opt_formats opts") simp_all
  have "truthy (opt_tmpDir opts) \<and> opt_formats opts \<noteq> None \<longrightarrow> h' = h"
  proof
    assume "truthy (opt_tmpDir opts) \<and> opt_formats opts \<noteq> None"
    then have "?o = opts" using same by blast
    then have "h' = h(r \<mapsto> opts)" by (simp only: h')
    with assms(1) show "h' = h" by (simp add: fun_upd_idem)
  qed
  moreover have "\<forall>i. res = Inr i \<longrightarrow> this_options i = r"
    unfolding res by (cases e) auto
  moreover have "h' r = Some ?o" by (simp only: h' fun_upd_same)
  moreover have "\<forall>r'. r' \<noteq> r \<longrightarrow> h' r' = h r'" by (simp add: h')
  ultimately show ?thesis unfolding SUPPORTED_FORMATS_def by blast
qed

text \<open>
  Options without \<open>tmpDir\<close> and \<open>formats\<close> get both written; options with both keep them.
\<close>

theorem constructor_options_witness:
  "fst (constructor ex_env (Some 0) (ex_heap ex_options) 0) = Inr \<lparr>this_options = 0\<rparr>
   \<and> fst (snd (constructor ex_env (Some 0) (ex_heap ex_options) 0)) 0
       = Some (ex_options\<lparr>opt_tmpDir := Some ''/tmp'',
                           opt_formats := Some [''JPEG'', ''PNG'', ''GIF'', ''TIFF'']\<rparr>)
   \<and> fst (snd (constructor ex_env (Some 0) (ex_heap ex_options_full) 0)) = ex_heap ex_options_full"
proof -
  let ?c = "constructor ex_env (Some 0) (ex_heap ex_options) 0"
  let ?c' = "constructor ex_env (Some 0) (ex_heap ex_options_full) 0"
  have h: "ex_heap ex_options 0 = Some ex_options" "ex_heap ex_options_full 0 = Some ex_options_full"
    by (simp_all add: ex_heap_def)
  have ts: "opt_transforms ex_options = Some [(''thumb'', [(''resize'', Scalar ''100x100'')])]"
    "opt_transforms ex_options_full = Some [(''thumb'', [(''resize'', Scalar ''100x100'')])]"
    by (simp_all add: ex_options_def ex_options_full_def)
  have c: "?c = (fst ?c, fst (snd ?c), snd (snd ?c))" "?c' = (fst ?c', fst (snd ?c'), snd (snd ?c'))"
    by simp_all
  have abs: "\<not> truthy (opt_tmpDir ex_options)" "opt_formats ex_options = None"
    "os_tmpdir ex_env = ''/tmp''"
    by (simp_all add: ex_options_def truthy_def ex_env_def)
  have pres: "truthy (opt_tmpDir ex_options_full) \<and> opt_formats ex_options_full \<noteq> None"
    by (simp add: ex_options_full_def truthy_def)
  have r: "fst ?c = Inr \<lparr>this_options = 0\<rparr>"
    by (simp add: constructor_def ex_heap_def ex_options_def ex_env_def truthy_def Let_def)
  from constructor_options [OF h(1) ts(1) c(1)]
  have 1: "fst (snd ?c) 0 = Some (ex_options\<lparr>opt_tmpDir := Some ''/tmp'',
                           opt_formats := Some [''JPEG'', ''PNG'', ''GIF'', ''TIFF'']\<rparr>)"
    by (simp add: abs)
  from constructor_options [OF h(2) ts(2) c(2)] pres
  have 2: "fst (snd ?c') = ex_heap ex_options_full" by blast
  from r 1 2 show ?thesis by (intro conjI)
qed

text \<open>
  The claim as it is worded leaves options with both fields present unchanged. An options
  object whose \<open>tmpDir\<close> is present and is the empty string gets the system temporary
  directory written over it.
\<close>

theorem constructor_empty_tmpDir_counterexample:
  "fst (snd (constructor ex_env (Some 0)
               (\<lambda>r. if r = 0 then Some (ex_options\<lparr>opt_tmpDir := Some [], opt_formats := Some [''PNG'']\<rparr>)
                     else None) 0)) 0
     = Some (ex_options\<lparr>opt_tmpDir := Some ''/tmp'', opt_formats := Some [''PNG'']\<rparr>)
   \<and> opt_tmpDir (ex_options\<lparr>opt_tmpDir := Some [], opt_formats := Some [''PNG'']\<rparr>) = Some []
   \<and> opt_formats (ex_options\<lparr>opt_tmpDir := Some [], opt_formats := Some [''PNG'']\<rparr>) = Some [''PNG'']"
  by (simp add: constructor_def ex_options_def ex_env_def truthy_def Let_def)

end
